theory Spec2Isabelle
  imports Main "HOL-Library.Multiset"
begin

section \<open>Unified agent messaging: the data model\<close>

text \<open>
  The store is a document database. Each table is modelled as the list of its documents
  in insertion order, which is the order a full scan (\<^verbatim>\<open>collect()\<close>) returns them in.
  Document identifiers are opaque in the source; here they are natural numbers drawn from
  one counter shared by all tables.

  Strings are \<^typ>\<open>string\<close>; a character stands for one code unit of the source's string,
  which is exact for ASCII text. The three non-ASCII literals of the source (two emoji and a
  dash) are named constants holding their UTF-8 bytes. Case conversion is the ASCII one.
\<close>

type_synonym id = nat

datatype msgType = Comment | Dm

datatype prio = Normal | Urgent

datatype notifType = MentionN | DmN

datatype error =
    TaskNotFound id
  | SenderNotFound string
  | RecipientNotFound string
  | DocNotFound id

record agent =
  agent_id :: id
  agent_name :: string
  agent_avatar :: "string option"

record task =
  task_id :: id
  task_title :: "string option"
  task_linearIdentifier :: "string option"
  task_projectId :: "id option"

text \<open>A document of the table \<^verbatim>\<open>unifiedMessages\<close>. Optional fields are options;
  \<open>read\<close> is absent on a comment until some caller patches it.\<close>

record message =
  msg_id :: id
  fromAgent :: string
  toAgent :: "string option"
  taskId :: "id option"
  linearIdentifier :: "string option"
  content :: string
  mtype :: msgType
  mentions :: "string list option"
  priority :: "prio option"
  read :: "bool option"
  createdAt :: nat

text \<open>A document of the legacy table \<^verbatim>\<open>agentMessages\<close>.\<close>

record agentMessage =
  am_id :: id
  am_from :: id
  am_to :: id
  am_type :: string
  am_content :: string
  am_taskRef :: "id option"
  am_status :: string
  am_timestamp :: nat

record notification =
  n_id :: id
  n_to :: id
  n_from :: id
  n_type :: notifType
  n_title :: string
  n_message :: string
  n_read :: bool
  n_relatedTask :: "id option"
  n_createdAt :: nat

record activityEvent =
  ev_id :: id
  ev_agentId :: id
  ev_agentName :: string
  ev_category :: string
  ev_eventType :: string
  ev_title :: string
  ev_taskId :: "id option"
  ev_linearIdentifier :: "string option"
  ev_projectId :: "id option"
  ev_source :: string
  ev_timestamp :: nat

record db =
  agents :: "agent list"
  tasks :: "task list"
  unifiedMessages :: "message list"
  agentMessages :: "agentMessage list"
  notifications :: "notification list"
  activityEvents :: "activityEvent list"
  nextId :: nat

section \<open>Strings\<close>

definition lowerChar :: "char \<Rightarrow> char" where
  "lowerChar c =
     (let n = (of_char c :: nat) in if 65 \<le> n \<and> n \<le> 90 then char_of (n + 32) else c)"

definition upperChar :: "char \<Rightarrow> char" where
  "upperChar c =
     (let n = (of_char c :: nat) in if 97 \<le> n \<and> n \<le> 122 then char_of (n - 32) else c)"

definition toLowerCase :: "string \<Rightarrow> string" where
  "toLowerCase s = map lowerChar s"

definition toUpperCase :: "string \<Rightarrow> string" where
  "toUpperCase s = map upperChar s"

text \<open>\<^verbatim>\<open>s.slice(0, n) + (s.length > n ? "..." : "")\<close>\<close>

definition preview :: "nat \<Rightarrow> string \<Rightarrow> string" where
  "preview n s = take n s @ (if length s > n then ''...'' else '''')"

definition urgentMarker :: string where
  "urgentMarker = [CHR 0xF0, CHR 0x9F, CHR 0x94, CHR 0xB4]"

definition robotAvatar :: string where
  "robotAvatar = [CHR 0xF0, CHR 0x9F, CHR 0xA4, CHR 0x96]"

definition emDash :: string where
  "emDash = [CHR 0xE2, CHR 0x80, CHR 0x94]"

text \<open>Truthiness of an optional string: absent and empty are both falsy.\<close>

fun truthy :: "string option \<Rightarrow> bool" where
  "truthy None = False"
| "truthy (Some s) = (s \<noteq> [])"

text \<open>\<^verbatim>\<open>a || b\<close> on an optional string with a string default.\<close>

definition orElse :: "string option \<Rightarrow> string \<Rightarrow> string" where
  "orElse a b = (case a of None \<Rightarrow> b | Some s \<Rightarrow> if s = [] then b else s)"

section \<open>The mention parser\<close>

text \<open>
  \<^verbatim>\<open>content.match(/@(Max|Sam|Leo|Son|all)/gi)\<close>: the matches from left to right,
  without overlap. Every alternative has three letters, so a match at an \<open>@\<close> takes
  that character and the next three; otherwise the scan moves on by one character.
\<close>

definition mentionWords :: "string list" where
  "mentionWords = [''max'', ''sam'', ''leo'', ''son'', ''all'']"

fun matchMentions :: "string \<Rightarrow> string list" where
  "matchMentions [] = []"
| "matchMentions (c # cs) =
     (if c = CHR ''@'' \<and> 3 \<le> length cs \<and> toLowerCase (take 3 cs) \<in> set mentionWords
      then (c # take 3 cs) # matchMentions (drop 3 cs)
      else matchMentions cs)"

text \<open>\<^verbatim>\<open>[...new Set(names)]\<close>: the distinct elements in order of first occurrence.\<close>

fun uniq :: "'a list \<Rightarrow> 'a list" where
  "uniq [] = []"
| "uniq (x # xs) = x # uniq (filter (\<lambda>y. y \<noteq> x) xs)"

definition parseMentions :: "string \<Rightarrow> string list" where
  "parseMentions content' =
     (let matches = matchMentions content';
          names = map (\<lambda>m. toLowerCase (drop 1 m)) matches
      in if ''all'' \<in> set names then [''max'', ''sam'', ''leo'', ''son'']
         else uniq names)"

section \<open>Store primitives\<close>

text \<open>\<^verbatim>\<open>ctx.db.get(id)\<close> on the tables the handlers read by identifier.\<close>

definition getTask :: "db \<Rightarrow> id \<Rightarrow> task option" where
  "getTask d i = find (\<lambda>t. task_id t = i) (tasks d)"

definition getAgent :: "db \<Rightarrow> id \<Rightarrow> agent option" where
  "getAgent d i = find (\<lambda>a. agent_id a = i) (agents d)"

text \<open>\<^verbatim>\<open>agents.find((a) => a.name.toLowerCase() === n)\<close>: the first agent of that name.\<close>

definition findAgent :: "agent list \<Rightarrow> string \<Rightarrow> agent option" where
  "findAgent as n = find (\<lambda>a. toLowerCase (agent_name a) = n) as"

text \<open>\<^verbatim>\<open>new Map(agents.map((a) => [a.name.toLowerCase(), a]))\<close>: a later agent of the same
  name replaces an earlier one.\<close>

definition agentMap :: "agent list \<Rightarrow> string \<rightharpoonup> agent" where
  "agentMap as = map_of (rev (map (\<lambda>a. (toLowerCase (agent_name a), a)) as))"

text \<open>\<^verbatim>\<open>ctx.db.insert(table, doc)\<close>: the document gets a fresh identifier and goes to the
  end of its table; the identifier is returned.\<close>

definition insertMessage :: "db \<Rightarrow> message \<Rightarrow> db \<times> id" where
  "insertMessage d m =
     (d\<lparr>unifiedMessages := unifiedMessages d @ [m\<lparr>msg_id := nextId d\<rparr>],
        nextId := Suc (nextId d)\<rparr>, nextId d)"

definition insertAgentMessage :: "db \<Rightarrow> agentMessage \<Rightarrow> db \<times> id" where
  "insertAgentMessage d m =
     (d\<lparr>agentMessages := agentMessages d @ [m\<lparr>am_id := nextId d\<rparr>],
        nextId := Suc (nextId d)\<rparr>, nextId d)"

definition insertNotification :: "db \<Rightarrow> notification \<Rightarrow> db \<times> id" where
  "insertNotification d n =
     (d\<lparr>notifications := notifications d @ [n\<lparr>n_id := nextId d\<rparr>],
        nextId := Suc (nextId d)\<rparr>, nextId d)"

definition insertActivityEvent :: "db \<Rightarrow> activityEvent \<Rightarrow> db \<times> id" where
  "insertActivityEvent d e =
     (d\<lparr>activityEvents := activityEvents d @ [e\<lparr>ev_id := nextId d\<rparr>],
        nextId := Suc (nextId d)\<rparr>, nextId d)"

text \<open>\<^verbatim>\<open>ctx.db.patch(id, { read: true })\<close> on \<^verbatim>\<open>unifiedMessages\<close>; patching a document that
  does not exist throws. An identifier names one document of the store; the model patches
  whatever carries it.\<close>

definition patchRead :: "db \<Rightarrow> id \<Rightarrow> error + db" where
  "patchRead d i =
     (if \<exists>m \<in> set (unifiedMessages d). msg_id m = i
      then Inr (d\<lparr>unifiedMessages :=
                    map (\<lambda>m. if msg_id m = i then m\<lparr>read := Some True\<rparr> else m)
                        (unifiedMessages d)\<rparr>)
      else Inl (DocNotFound i))"

text \<open>The index scans of \<^verbatim>\<open>unifiedMessages\<close>: equality on the indexed fields, documents
  in insertion order.\<close>

definition by_task :: "db \<Rightarrow> id \<Rightarrow> message list" where
  "by_task d t = filter (\<lambda>m. taskId m = Some t) (unifiedMessages d)"

definition by_to_agent :: "db \<Rightarrow> string \<Rightarrow> message list" where
  "by_to_agent d a = filter (\<lambda>m. toAgent m = Some a) (unifiedMessages d)"

definition by_to_agent_unread :: "db \<Rightarrow> string \<Rightarrow> message list" where
  "by_to_agent_unread d a =
     filter (\<lambda>m. toAgent m = Some a \<and> read m = Some False) (unifiedMessages d)"

text \<open>\<^verbatim>\<open>xs.sort(cmp)\<close>: a stable sort by a comparator that returns a number.\<close>

fun insertBy :: "('a \<Rightarrow> 'a \<Rightarrow> int) \<Rightarrow> 'a \<Rightarrow> 'a list \<Rightarrow> 'a list" where
  "insertBy cmp x [] = [x]"
| "insertBy cmp x (y # ys) = (if cmp x y \<le> 0 then x # y # ys else y # insertBy cmp x ys)"

definition sortBy :: "('a \<Rightarrow> 'a \<Rightarrow> int) \<Rightarrow> 'a list \<Rightarrow> 'a list" where
  "sortBy cmp xs = foldr (insertBy cmp) xs []"

definition createdAsc :: "message \<Rightarrow> message \<Rightarrow> int" where
  "createdAsc a b = int (createdAt a) - int (createdAt b)"

definition createdDesc :: "message \<Rightarrow> message \<Rightarrow> int" where
  "createdDesc a b = int (createdAt b) - int (createdAt a)"

text \<open>\<^verbatim>\<open>xs.slice(start)\<close> for an integer \<open>start\<close>: a negative one counts from the end.\<close>

definition sliceFrom :: "int \<Rightarrow> 'a list \<Rightarrow> 'a list" where
  "sliceFrom start xs =
     (let len = int (length xs);
          k = (if start < 0 then max (len + start) 0 else min start len)
      in drop (nat k) xs)"

text \<open>Identifiers interpolated into a string are rendered in decimal.\<close>

fun idString :: "nat \<Rightarrow> string" where
  "idString n =
     (if n < 10 then [char_of (48 + n)]
      else idString (n div 10) @ [char_of (48 + n mod 10)])"

section \<open>Unified messaging: mutations\<close>

text \<open>Every handler takes the store and \<open>now\<close>, the value \<^verbatim>\<open>Date.now()\<close> has during the
  call, and returns the store it leaves behind together with its result.\<close>

record commentResult =
  cr_messageId :: id
  cr_taskId :: id
  cr_mentions :: "string list"
  cr_linearIdentifier :: "string option"

record dmResult =
  dr_messageId :: id
  dr_from :: string
  dr_to :: string
  dr_priority :: prio

text \<open>The loop of \<^verbatim>\<open>postComment\<close> over the mentioned names: the sender is skipped, and so
  is a name no agent has.\<close>

fun notifyMentions ::
  "agent list \<Rightarrow> agent \<Rightarrow> string \<Rightarrow> string \<Rightarrow> string \<Rightarrow> id \<Rightarrow> nat \<Rightarrow> string list \<Rightarrow> db \<Rightarrow> db"
where
  "notifyMentions as agent agentNameLower linearId content' tId now [] d = d"
| "notifyMentions as agent agentNameLower linearId content' tId now (mentionName # rest) d =
     (if mentionName = agentNameLower
      then notifyMentions as agent agentNameLower linearId content' tId now rest d
      else (case findAgent as mentionName of
              None \<Rightarrow> notifyMentions as agent agentNameLower linearId content' tId now rest d
            | Some mentionedAgent \<Rightarrow>
                notifyMentions as agent agentNameLower linearId content' tId now rest
                  (fst (insertNotification d
                     \<lparr>n_id = 0,
                      n_to = agent_id mentionedAgent,
                      n_from = agent_id agent,
                      n_type = MentionN,
                      n_title = agent_name agent @ '' mentioned you'',
                      n_message = ''In '' @ linearId @ '': '' @ preview 100 content',
                      n_read = False,
                      n_relatedTask = Some tId,
                      n_createdAt = now\<rparr>))))"

definition postComment ::
  "db \<Rightarrow> nat \<Rightarrow> id \<Rightarrow> string \<Rightarrow> string \<Rightarrow> error + (db \<times> commentResult)"
where
  "postComment d now tId agentName content' =
     (let agentNameLower = toLowerCase agentName in
      case getTask d tId of
        None \<Rightarrow> Inl (TaskNotFound tId)
      | Some task \<Rightarrow>
          let mentions' = parseMentions content';
              (d1, messageId) = insertMessage d
                 \<lparr>msg_id = 0,
                  fromAgent = agentNameLower,
                  toAgent = None,
                  taskId = Some tId,
                  linearIdentifier = task_linearIdentifier task,
                  content = content',
                  mtype = Comment,
                  mentions = (if length mentions' > 0 then Some mentions' else None),
                  priority = None,
                  read = None,
                  createdAt = now\<rparr>;
              as = agents d1;
              res = \<lparr>cr_messageId = messageId, cr_taskId = tId, cr_mentions = mentions',
                     cr_linearIdentifier = task_linearIdentifier task\<rparr>
          in (case findAgent as agentNameLower of
                None \<Rightarrow> Inr (d1, res)
              | Some agent \<Rightarrow>
                  let linearId = orElse (task_linearIdentifier task) (''task-'' @ idString tId);
                      d2 = fst (insertActivityEvent d1
                         \<lparr>ev_id = 0,
                          ev_agentId = agent_id agent,
                          ev_agentName = agentNameLower,
                          ev_category = ''message'',
                          ev_eventType = ''comment'',
                          ev_title = toUpperCase (agent_name agent) @ '' commented on '' @ linearId,
                          ev_taskId = Some tId,
                          ev_linearIdentifier = task_linearIdentifier task,
                          ev_projectId = task_projectId task,
                          ev_source = ''unified_messaging'',
                          ev_timestamp = now\<rparr>);
                      d3 = notifyMentions as agent agentNameLower linearId content' tId now
                             mentions' d2
                  in Inr (d3, res)))"

definition sendDM ::
  "db \<Rightarrow> nat \<Rightarrow> string \<Rightarrow> string \<Rightarrow> string \<Rightarrow> id option \<Rightarrow> prio option \<Rightarrow> db \<times> dmResult"
where
  "sendDM d now from' to' content' relatedTaskId priority' =
     (let fromLower = toLowerCase from';
          toLower = toLowerCase to';
          prio' = (case priority' of None \<Rightarrow> Normal | Some p \<Rightarrow> p);
          linearIdentifier' =
            (case relatedTaskId of
               None \<Rightarrow> None
             | Some t \<Rightarrow> (case getTask d t of None \<Rightarrow> None
                          | Some task \<Rightarrow> task_linearIdentifier task));
          (d1, messageId) = insertMessage d
             \<lparr>msg_id = 0,
              fromAgent = fromLower,
              toAgent = Some toLower,
              taskId = relatedTaskId,
              linearIdentifier = linearIdentifier',
              content = content',
              mtype = Dm,
              mentions = None,
              priority = Some prio',
              read = Some False,
              createdAt = now\<rparr>;
          as = agents d1;
          res = \<lparr>dr_messageId = messageId, dr_from = fromLower, dr_to = toLower,
                 dr_priority = prio'\<rparr>
      in (case (findAgent as fromLower, findAgent as toLower) of
            (Some fromAgent', Some toAgent') \<Rightarrow>
              let notificationTitle =
                    (if prio' = Urgent
                     then urgentMarker @ '' Urgent DM from '' @ agent_name fromAgent'
                     else ''DM from '' @ agent_name fromAgent');
                  notificationMessage =
                    (if truthy linearIdentifier'
                     then ''Re: '' @ orElse linearIdentifier' [] @ '' '' @ emDash @ '' ''
                            @ preview 100 content'
                     else preview 150 content');
                  d2 = fst (insertNotification d1
                     \<lparr>n_id = 0,
                      n_to = agent_id toAgent',
                      n_from = agent_id fromAgent',
                      n_type = DmN,
                      n_title = notificationTitle,
                      n_message = notificationMessage,
                      n_read = False,
                      n_relatedTask = relatedTaskId,
                      n_createdAt = now\<rparr>);
                  d3 = fst (insertActivityEvent d2
                     \<lparr>ev_id = 0,
                      ev_agentId = agent_id fromAgent',
                      ev_agentName = fromLower,
                      ev_category = ''message'',
                      ev_eventType = ''dm_sent'',
                      ev_title = toUpperCase (agent_name fromAgent') @ '' sent DM to ''
                                   @ toUpperCase (agent_name toAgent'),
                      ev_taskId = relatedTaskId,
                      ev_linearIdentifier = linearIdentifier',
                      ev_projectId = None,
                      ev_source = ''unified_messaging'',
                      ev_timestamp = now\<rparr>)
              in (d3, res)
          | _ \<Rightarrow> (d1, res)))"

definition markRead :: "db \<Rightarrow> id \<Rightarrow> error + db" where
  "markRead d messageId = patchRead d messageId"

text \<open>The loop of \<^verbatim>\<open>markAllRead\<close>: one patch per collected message; a patch that throws
  ends the call.\<close>

fun patchAll :: "message list \<Rightarrow> db \<Rightarrow> error + db" where
  "patchAll [] d = Inr d"
| "patchAll (msg # rest) d =
     (case patchRead d (msg_id msg) of Inl e \<Rightarrow> Inl e | Inr d' \<Rightarrow> patchAll rest d')"

definition markAllRead :: "db \<Rightarrow> string \<Rightarrow> error + (db \<times> nat)" where
  "markAllRead d agentName =
     (let agentNameLower = toLowerCase agentName;
          unreadDMs = by_to_agent_unread d agentNameLower;
          allMessages = unifiedMessages d;
          unreadMentions = filter
             (\<lambda>m. mtype m = Comment \<and> read m \<noteq> Some True \<and>
                  (case mentions m of None \<Rightarrow> False | Some ms \<Rightarrow> agentNameLower \<in> set ms))
             allMessages;
          toMark = unreadDMs @ unreadMentions
      in (case patchAll toMark d of
            Inl e \<Rightarrow> Inl e
          | Inr d' \<Rightarrow> Inr (d', length toMark)))"

section \<open>Unified messaging: queries\<close>

text \<open>A message with the sender's display name and avatar, looked up when the query runs.\<close>

record enriched =
  e_msg :: message
  e_name :: string
  e_avatar :: string

definition enrich :: "db \<Rightarrow> message \<Rightarrow> enriched" where
  "enrich d m =
     (let a = agentMap (agents d) (fromAgent m)
      in \<lparr>e_msg = m,
          e_name = orElse (map_option agent_name a) (fromAgent m),
          e_avatar = orElse (Option.bind a agent_avatar) robotAvatar\<rparr>)"

definition getTaskComments :: "db \<Rightarrow> id \<Rightarrow> enriched list" where
  "getTaskComments d tId =
     (let comments = by_task d tId;
          filtered = sortBy createdAsc (filter (\<lambda>m. mtype m = Comment) comments)
      in map (enrich d) filtered)"

definition getDMs :: "db \<Rightarrow> string \<Rightarrow> bool \<Rightarrow> enriched list" where
  "getDMs d agentName unreadOnly =
     (let agentNameLower = toLowerCase agentName;
          messages = (if unreadOnly then rev (by_to_agent_unread d agentNameLower)
                      else rev (by_to_agent d agentNameLower));
          dms = filter (\<lambda>m. mtype m = Dm) messages
      in map (enrich d) dms)"

record unreadCount =
  uc_dms :: nat
  uc_mentions :: nat
  uc_total :: nat

text \<open>The filter \<^verbatim>\<open>getUnreadCount\<close> and \<^verbatim>\<open>getUnread\<close> share: a comment not marked read
  that mentions the agent and was not written by the agent.\<close>

definition unreadMention :: "string \<Rightarrow> message \<Rightarrow> bool" where
  "unreadMention agentNameLower m =
     (mtype m = Comment \<and> read m \<noteq> Some True \<and>
      (case mentions m of None \<Rightarrow> False | Some ms \<Rightarrow> agentNameLower \<in> set ms) \<and>
      fromAgent m \<noteq> agentNameLower)"

definition getUnreadCount :: "db \<Rightarrow> string \<Rightarrow> unreadCount" where
  "getUnreadCount d agentName =
     (let agentNameLower = toLowerCase agentName;
          unreadDMs = by_to_agent_unread d agentNameLower;
          allMessages = unifiedMessages d;
          unreadMentions = filter (unreadMention agentNameLower) allMessages
      in \<lparr>uc_dms = length unreadDMs,
          uc_mentions = length unreadMentions,
          uc_total = length unreadDMs + length unreadMentions\<rparr>)"

record unreadResult =
  ur_dms :: "enriched list"
  ur_mentions :: "enriched list"
  ur_count :: unreadCount

definition getUnread :: "db \<Rightarrow> string \<Rightarrow> unreadResult" where
  "getUnread d agentName =
     (let agentNameLower = toLowerCase agentName;
          unreadDMs = filter (\<lambda>m. mtype m = Dm)
                        (take 10 (rev (by_to_agent_unread d agentNameLower)));
          allMessages = unifiedMessages d;
          unreadMentions =
            take 10 (sortBy createdDesc (filter (unreadMention agentNameLower) allMessages))
      in \<lparr>ur_dms = map (enrich d) unreadDMs,
          ur_mentions = map (enrich d) unreadMentions,
          ur_count = \<lparr>uc_dms = length unreadDMs,
                      uc_mentions = length unreadMentions,
                      uc_total = length unreadDMs + length unreadMentions\<rparr>\<rparr>)"

text \<open>The DMs between two agents, in either direction, before the limit is applied.\<close>

definition conversation :: "db \<Rightarrow> string \<Rightarrow> string \<Rightarrow> message list" where
  "conversation d a1 a2 =
     sortBy createdAsc
       (filter (\<lambda>m. mtype m = Dm \<and>
                    ((fromAgent m = a1 \<and> toAgent m = Some a2) \<or>
                     (fromAgent m = a2 \<and> toAgent m = Some a1)))
          (unifiedMessages d))"

text \<open>The limit is a number in the source; the model takes an integer. Zero is falsy, as an
  absent limit is.\<close>

definition getConversation :: "db \<Rightarrow> string \<Rightarrow> string \<Rightarrow> int option \<Rightarrow> enriched list" where
  "getConversation d agent1 agent2 limit =
     (let a1 = toLowerCase agent1;
          a2 = toLowerCase agent2;
          conv = conversation d a1 a2;
          limited = (case limit of
                       None \<Rightarrow> conv
                     | Some k \<Rightarrow> if k \<noteq> 0 then sliceFrom (- k) conv else conv)
      in map (enrich d) limited)"

section \<open>Legacy direct messaging\<close>

definition sendDirectMessage ::
  "db \<Rightarrow> nat \<Rightarrow> string \<Rightarrow> string \<Rightarrow> string \<Rightarrow> id option \<Rightarrow> prio option
     \<Rightarrow> error + (db \<times> dmResult)"
where
  "sendDirectMessage d now fromAgent' toAgent' content' relatedTaskId priority' =
     (let as = agents d in
      case findAgent as (toLowerCase fromAgent') of
        None \<Rightarrow> Inl (SenderNotFound fromAgent')
      | Some fromAgentDoc \<Rightarrow>
         (case findAgent as (toLowerCase toAgent') of
            None \<Rightarrow> Inl (RecipientNotFound toAgent')
          | Some toAgentDoc \<Rightarrow>
              let prio' = (case priority' of None \<Rightarrow> Normal | Some p \<Rightarrow> p);
                  (d1, messageId) = insertAgentMessage d
                     \<lparr>am_id = 0,
                      am_from = agent_id fromAgentDoc,
                      am_to = agent_id toAgentDoc,
                      am_type = ''fyi'',
                      am_content = content',
                      am_taskRef = relatedTaskId,
                      am_status = ''unread'',
                      am_timestamp = now\<rparr>;
                  linearId =
                    (case relatedTaskId of
                       None \<Rightarrow> None
                     | Some t \<Rightarrow> (case getTask d1 t of None \<Rightarrow> None
                                  | Some task \<Rightarrow> task_linearIdentifier task));
                  notificationTitle =
                    (if prio' = Urgent
                     then urgentMarker @ '' Urgent DM from '' @ agent_name fromAgentDoc
                     else ''DM from '' @ agent_name fromAgentDoc);
                  notificationMessage =
                    (if truthy linearId
                     then ''Re: '' @ orElse linearId [] @ '' '' @ emDash @ '' ''
                            @ preview 100 content'
                     else preview 150 content');
                  d2 = fst (insertNotification d1
                     \<lparr>n_id = 0,
                      n_to = agent_id toAgentDoc,
                      n_from = agent_id fromAgentDoc,
                      n_type = DmN,
                      n_title = notificationTitle,
                      n_message = notificationMessage,
                      n_read = False,
                      n_relatedTask = relatedTaskId,
                      n_createdAt = now\<rparr>);
                  d3 = fst (insertActivityEvent d2
                     \<lparr>ev_id = 0,
                      ev_agentId = agent_id fromAgentDoc,
                      ev_agentName = toLowerCase fromAgent',
                      ev_category = ''message'',
                      ev_eventType = ''dm_sent'',
                      ev_title = toUpperCase (agent_name fromAgentDoc) @ '' sent DM to ''
                                   @ toUpperCase (agent_name toAgentDoc),
                      ev_taskId = relatedTaskId,
                      ev_linearIdentifier = (if truthy linearId then linearId else None),
                      ev_projectId = None,
                      ev_source = ''agent_dm'',
                      ev_timestamp = now\<rparr>)
              in Inr (d3, \<lparr>dr_messageId = messageId, dr_from = fromAgent', dr_to = toAgent',
                           dr_priority = prio'\<rparr>)))"

text \<open>A legacy DM with what \<^verbatim>\<open>getDirectMessages\<close> adds to it.\<close>

record enrichedLegacy =
  el_msg :: agentMessage
  el_fromAgentName :: string
  el_fromAgentAvatar :: string
  el_taskTitle :: "string option"
  el_linearIdentifier :: "string option"

definition timestampDesc :: "agentMessage \<Rightarrow> agentMessage \<Rightarrow> int" where
  "timestampDesc a b = int (am_timestamp b) - int (am_timestamp a)"

definition enrichLegacy :: "db \<Rightarrow> agentMessage \<Rightarrow> enrichedLegacy" where
  "enrichLegacy d m =
     (let fromAgent' = getAgent d (am_from m);
          task = (case am_taskRef m of None \<Rightarrow> None | Some t \<Rightarrow> getTask d t)
      in \<lparr>el_msg = m,
          el_fromAgentName = orElse (map_option agent_name fromAgent') ''Unknown'',
          el_fromAgentAvatar = orElse (Option.bind fromAgent' agent_avatar) robotAvatar,
          el_taskTitle =
            (let t = Option.bind task task_title in if truthy t then t else None),
          el_linearIdentifier =
            (let l = Option.bind task task_linearIdentifier in if truthy l then l else None)\<rparr>)"

definition getDirectMessages :: "db \<Rightarrow> string \<Rightarrow> bool \<Rightarrow> enrichedLegacy list" where
  "getDirectMessages d agentName unreadOnly =
     (case findAgent (agents d) (toLowerCase agentName) of
        None \<Rightarrow> []
      | Some agent \<Rightarrow>
          let messages =
                (if unreadOnly
                 then rev (filter (\<lambda>m. am_to m = agent_id agent \<and> am_status m = ''unread'')
                             (agentMessages d))
                 else sortBy timestampDesc
                        (filter (\<lambda>m. am_to m = agent_id agent) (agentMessages d)))
          in map (enrichLegacy d) messages)"

section \<open>Auxiliary notions for the proofs\<close>

text \<open>The store after the messages whose identifier lies in \<open>S\<close> have been patched.\<close>

definition markSet :: "id set \<Rightarrow> db \<Rightarrow> db" where
  "markSet S d = d\<lparr>unifiedMessages :=
       map (\<lambda>m. if msg_id m \<in> S then m\<lparr>read := Some True\<rparr> else m) (unifiedMessages d)\<rparr>"

definition mentionsName :: "string \<Rightarrow> message \<Rightarrow> bool" where
  "mentionsName a m = (case mentions m of None \<Rightarrow> False | Some ms \<Rightarrow> a \<in> set ms)"

text \<open>What \<^verbatim>\<open>markAllRead\<close> collects for the lower-cased name \<open>a\<close>.\<close>

definition toMarkFor :: "db \<Rightarrow> string \<Rightarrow> message list" where
  "toMarkFor d a = by_to_agent_unread d a @
      filter (\<lambda>m. mtype m = Comment \<and> read m \<noteq> Some True \<and> mentionsName a m)
        (unifiedMessages d)"

text \<open>The recipients the loop over the mentions notifies, in order.\<close>

fun mentionTargets :: "agent list \<Rightarrow> string \<Rightarrow> string list \<Rightarrow> id list" where
  "mentionTargets as anl [] = []"
| "mentionTargets as anl (x # xs) =
     (if x = anl then mentionTargets as anl xs
      else (case findAgent as x of None \<Rightarrow> mentionTargets as anl xs
            | Some a \<Rightarrow> agent_id a # mentionTargets as anl xs))"

section \<open>Example stores\<close>

text \<open>A store with the four agents of the roster and one ticket, and nothing sent yet.\<close>

definition rosterDb :: db where
  "rosterDb =
     \<lparr>agents = [\<lparr>agent_id = 1, agent_name = ''Max'', agent_avatar = None\<rparr>,
                \<lparr>agent_id = 2, agent_name = ''Sam'', agent_avatar = None\<rparr>,
                \<lparr>agent_id = 3, agent_name = ''Leo'', agent_avatar = None\<rparr>,
                \<lparr>agent_id = 4, agent_name = ''Son'', agent_avatar = None\<rparr>],
      tasks = [\<lparr>task_id = 10, task_title = Some ''Unify messaging'',
                task_linearIdentifier = Some ''AGT-9'', task_projectId = None\<rparr>],
      unifiedMessages = [], agentMessages = [], notifications = [], activityEvents = [],
      nextId = 100\<rparr>"

text \<open>Max has posted one comment that mentions Sam and Leo.\<close>

definition twoMentionsDb :: db where
  "twoMentionsDb =
     fst (projr (postComment rosterDb 1000 10 ''max'' ''@sam @leo please review''))"

text \<open>Sam has posted one comment that mentions Sam.\<close>

definition ownMentionDb :: db where
  "ownMentionDb =
     fst (projr (postComment rosterDb 1000 10 ''sam'' ''note to @sam: rebase''))"

text \<open>Three DMs between Max and Sam, stored out of the order of their timestamps.\<close>

definition chatDb :: db where
  "chatDb =
     fst (sendDM
       (fst (sendDM
         (fst (sendDM rosterDb 3000 ''max'' ''sam'' ''third'' None None))
         1000 ''Sam'' ''MAX'' ''first'' None (Some Urgent)))
       2000 ''max'' ''sam'' ''second'' None None)"

section \<open>The mention parser: the wildcard\<close>

lemma lowerChar_at: "lowerChar c = CHR ''@'' \<longleftrightarrow> c = CHR ''@''"
proof
  assume h: "lowerChar c = CHR ''@''"
  show "c = CHR ''@''"
  proof (cases "65 \<le> (of_char c :: nat) \<and> (of_char c :: nat) \<le> 90")
    case True
    then have "lowerChar c = char_of ((of_char c :: nat) + 32)"
      by (simp add: lowerChar_def)
    with h have "(of_char (char_of ((of_char c :: nat) + 32)) :: nat) = of_char (CHR ''@'')"
      by simp
    then have "((of_char c :: nat) + 32) mod 256 = 64"
      by (simp add: of_char_of)
    with True show ?thesis by simp
  next
    case False
    with h show ?thesis by (simp add: lowerChar_def)
  qed
next
  assume "c = CHR ''@''"
  then show "lowerChar c = CHR ''@''" by (simp add: lowerChar_def)
qed

lemma word_no_at: "toLowerCase w \<in> set mentionWords \<Longrightarrow> CHR ''@'' \<notin> set w"
proof
  assume a: "toLowerCase w \<in> set mentionWords" and b: "CHR ''@'' \<in> set w"
  from b have "lowerChar (CHR ''@'') \<in> set (toLowerCase w)"
    unfolding toLowerCase_def by force
  moreover have "lowerChar (CHR ''@'') = CHR ''@''"
    by (simp add: lowerChar_at)
  ultimately have "CHR ''@'' \<in> set (toLowerCase w)" by simp
  with a show False by (auto simp: mentionWords_def)
qed

text \<open>An occurrence of the wildcard is never swallowed by an earlier match: a match is an
  \<open>@\<close> followed by three letters, so it cannot reach over the wildcard's own \<open>@\<close>.\<close>

lemma all_found:
  "toLowerCase w = ''@all'' \<Longrightarrow>
   ''all'' \<in> set (map (\<lambda>m. toLowerCase (drop 1 m)) (matchMentions (pre @ w @ post)))"
proof (induction pre rule: length_induct)
  case (1 pre)
  from 1(2) obtain c0 c1 c2 c3 where w: "w = [c0, c1, c2, c3]"
    and l: "lowerChar c0 = CHR ''@''" "map lowerChar [c1, c2, c3] = ''all''"
    unfolding toLowerCase_def by (auto simp: map_eq_Cons_conv)
  from l(1) have c0: "c0 = CHR ''@''" by (simp add: lowerChar_at)
  show ?case
  proof (cases pre)
    case Nil
    then show ?thesis using w c0 l(2) by (simp add: toLowerCase_def mentionWords_def)
  next
    case (Cons p ps)
    let ?rest = "ps @ w @ post"
    show ?thesis
    proof (cases "p = CHR ''@'' \<and> 3 \<le> length ?rest
                   \<and> toLowerCase (take 3 ?rest) \<in> set mentionWords")
      case True
      then have "toLowerCase (take 3 ?rest) \<in> set mentionWords" by blast
      then have noat: "CHR ''@'' \<notin> set (take 3 ?rest)" by (rule word_no_at)
      have len: "3 \<le> length ps"
      proof (rule ccontr)
        assume "\<not> 3 \<le> length ps"
        then have "length ps < 3" by simp
        then have "take 3 ?rest = ps @ take (3 - length ps) (w @ post)"
          and "0 < 3 - length ps" by simp_all
        then have "c0 \<in> set (take 3 ?rest)" using w by (cases "3 - length ps") auto
        with noat c0 show False by simp
      qed
      then have d: "drop 3 ?rest = drop 3 ps @ w @ post" by simp
      have "length (drop 3 ps) < length pre" using Cons by simp
      with 1(1) 1(2)
      have "''all'' \<in> set (map (\<lambda>m. toLowerCase (drop 1 m))
                               (matchMentions (drop 3 ps @ w @ post)))"
        by blast
      then show ?thesis using Cons True d by simp
    next
      case False
      have "length ps < length pre" using Cons by simp
      with 1(1) 1(2)
      have "''all'' \<in> set (map (\<lambda>m. toLowerCase (drop 1 m)) (matchMentions ?rest))"
        by blast
      then show ?thesis using Cons False by auto
    qed
  qed
qed

text \<open>
  Claim C5. A text that contains the wildcard marker, in any letter case and at any
  position, whatever else it contains, is parsed to exactly the four known agent names.
\<close>

theorem parseMentions_wildcard:
  "toLowerCase w = ''@all'' \<Longrightarrow>
   parseMentions (pre @ w @ post) = [''max'', ''sam'', ''leo'', ''son'']"
  using all_found [of w pre post] by (simp add: parseMentions_def Let_def)

theorem parseMentions_wildcard_witness:
  "toLowerCase ''@All'' = ''@all'' \<and>
   parseMentions (''Looks good @Leo @leo '' @ ''@All'' @ '' @sam'')
     = [''max'', ''sam'', ''leo'', ''son'']"
proof -
  have h: "toLowerCase ''@All'' = ''@all''" by code_simp
  show ?thesis
    using h parseMentions_wildcard [OF h, of "''Looks good @Leo @leo ''" "'' @sam''"]
    by simp
qed

section \<open>Marking everything read\<close>

lemma markSet_empty: "markSet {} d = d"
  by (simp add: markSet_def)

lemma patchRead_markSet:
  "i \<in> msg_id ` set (unifiedMessages d) \<Longrightarrow> patchRead d i = Inr (markSet {i} d)"
  by (auto simp: patchRead_def markSet_def)

lemma ids_markSet:
  "msg_id ` set (unifiedMessages (markSet S d)) = msg_id ` set (unifiedMessages d)"
proof -
  have "map msg_id (unifiedMessages (markSet S d)) = map msg_id (unifiedMessages d)"
    by (simp add: markSet_def)
  then have "set (map msg_id (unifiedMessages (markSet S d)))
             = set (map msg_id (unifiedMessages d))"
    by simp
  then show ?thesis by (simp only: set_map)
qed

lemma markSet_markSet: "markSet T (markSet S d) = markSet (S \<union> T) d"
  by (simp add: markSet_def comp_def)

lemma patchAll_markSet:
  "msg_id ` set ms \<subseteq> msg_id ` set (unifiedMessages d) \<Longrightarrow>
   patchAll ms d = Inr (markSet (msg_id ` set ms) d)"
proof (induction ms arbitrary: d)
  case Nil
  then show ?case by (simp add: markSet_empty)
next
  case (Cons m ms)
  then have 1: "patchRead d (msg_id m) = Inr (markSet {msg_id m} d)"
    by (simp add: patchRead_markSet)
  have "msg_id ` set ms \<subseteq> msg_id ` set (unifiedMessages (markSet {msg_id m} d))"
    using Cons.prems by (simp add: ids_markSet)
  then have "patchAll ms (markSet {msg_id m} d)
             = Inr (markSet (msg_id ` set ms) (markSet {msg_id m} d))"
    by (rule Cons.IH)
  then show ?case using 1 by (simp add: markSet_markSet)
qed

text \<open>The sweep never throws: every message it patches was just read from the store.\<close>

lemma markAllRead_eq:
  "markAllRead d a =
     Inr (markSet (msg_id ` set (toMarkFor d (toLowerCase a))) d,
          length (toMarkFor d (toLowerCase a)))"
proof -
  have "msg_id ` set (toMarkFor d (toLowerCase a)) \<subseteq> msg_id ` set (unifiedMessages d)"
    by (auto simp: toMarkFor_def by_to_agent_unread_def)
  then have "patchAll (toMarkFor d (toLowerCase a)) d
             = Inr (markSet (msg_id ` set (toMarkFor d (toLowerCase a))) d)"
    by (rule patchAll_markSet)
  then show ?thesis
    by (simp add: markAllRead_def Let_def toMarkFor_def mentionsName_def)
qed

lemma no_unread_dm_after:
  "by_to_agent_unread (markSet (msg_id ` set (toMarkFor d a)) d) a = []"
  by (auto simp: by_to_agent_unread_def markSet_def filter_empty_conv toMarkFor_def)

lemma no_unread_mention_after:
  "filter (unreadMention a) (unifiedMessages (markSet (msg_id ` set (toMarkFor d a)) d)) = []"
  by (auto simp: unreadMention_def markSet_def filter_empty_conv toMarkFor_def
      mentionsName_def)

text \<open>
  Claim C6. For every agent name and every store, \<^verbatim>\<open>markAllRead\<close> returns, and in the
  store it leaves \<^verbatim>\<open>getUnreadCount\<close> for the same name reports no unread DM, no unread
  mention and a total of zero.
\<close>

theorem markAllRead_then_unread_zero:
  "\<exists>d' n. markAllRead d agentName = Inr (d', n) \<and>
     getUnreadCount d' agentName = \<lparr>uc_dms = 0, uc_mentions = 0, uc_total = 0\<rparr>"
  by (simp add: markAllRead_eq getUnreadCount_def Let_def no_unread_dm_after
      no_unread_mention_after)

section \<open>Marking one message read\<close>

lemma markRead_msgs: "markRead d i = Inr d' \<Longrightarrow> d' = markSet {i} d"
  by (auto simp: markRead_def patchRead_def markSet_def split: if_splits)

lemma set_insertBy: "set (insertBy cmp x ys) = insert x (set ys)"
  by (induction ys) auto

lemma set_sortBy: "set (sortBy cmp xs) = set xs"
  by (induction xs) (auto simp: sortBy_def set_insertBy)

lemma unreadMention_markSet:
  "filter (unreadMention a) (unifiedMessages (markSet {i} d))
   = filter (\<lambda>m. unreadMention a m \<and> msg_id m \<noteq> i) (unifiedMessages d)"
proof -
  have "filter (unreadMention a)
          (map (\<lambda>m. if msg_id m = i then m\<lparr>read := Some True\<rparr> else m) xs)
        = filter (\<lambda>m. unreadMention a m \<and> msg_id m \<noteq> i) xs" for xs
    by (induction xs) (auto simp: unreadMention_def)
  then show ?thesis by (simp add: markSet_def)
qed

text \<open>
  Claim C1, as the code has it. The comment after \<^verbatim>\<open>markRead\<close> no longer counts as an
  unread mention for the agent Leo, although it was marked read for Sam's sake: Max's comment
  mentions Sam and Leo, Leo has one unread mention before the call and none after it, in
  the count and in the list.
\<close>

theorem markRead_clears_for_all_counterexample:
  "map mentions (unifiedMessages twoMentionsDb) = [Some [''sam'', ''leo'']] \<and>
   map fromAgent (unifiedMessages twoMentionsDb) = [''max''] \<and>
   map msg_id (unifiedMessages twoMentionsDb) = [100] \<and>
   uc_mentions (getUnreadCount twoMentionsDb ''leo'') = 1 \<and>
   length (ur_mentions (getUnread twoMentionsDb ''leo'')) = 1 \<and>
   \<not> isl (markRead twoMentionsDb 100) \<and>
   uc_mentions (getUnreadCount (projr (markRead twoMentionsDb 100)) ''leo'') = 0 \<and>
   ur_mentions (getUnread (projr (markRead twoMentionsDb 100)) ''leo'') = []"
  by code_simp

text \<open>
  Claim C1, amended. The read state of a comment is the one \<open>read\<close> flag of the message,
  shared by every agent it mentions: \<^verbatim>\<open>markRead\<close> takes a message and no agent, and after
  it the message is gone from the unread mention count and from the unread mention list of
  every agent name. The notification records are left as they were.
\<close>

theorem markRead_single_flag:
  assumes "markRead d i = Inr d'"
  shows "uc_mentions (getUnreadCount d' a)
           = length (filter (\<lambda>m. unreadMention (toLowerCase a) m \<and> msg_id m \<noteq> i)
                       (unifiedMessages d))
         \<and> i \<notin> set (map (\<lambda>e. msg_id (e_msg e)) (ur_mentions (getUnread d' a)))
         \<and> notifications d' = notifications d"
proof -
  from assms have d': "d' = markSet {i} d" by (rule markRead_msgs)
  have 1: "uc_mentions (getUnreadCount d' a)
           = length (filter (\<lambda>m. unreadMention (toLowerCase a) m \<and> msg_id m \<noteq> i)
                       (unifiedMessages d))"
    by (simp add: getUnreadCount_def Let_def d' unreadMention_markSet)
  have "set (map (\<lambda>e. msg_id (e_msg e)) (ur_mentions (getUnread d' a)))
        \<subseteq> msg_id ` set (sortBy createdDesc
                          (filter (unreadMention (toLowerCase a)) (unifiedMessages d')))"
    by (auto simp: getUnread_def Let_def enrich_def dest!: in_set_takeD)
  also have "\<dots> = msg_id ` set (filter (\<lambda>m. unreadMention (toLowerCase a) m \<and> msg_id m \<noteq> i)
                                  (unifiedMessages d))"
    by (simp only: set_sortBy d' unreadMention_markSet)
  finally have 2: "i \<notin> set (map (\<lambda>e. msg_id (e_msg e)) (ur_mentions (getUnread d' a)))"
    by auto
  have 3: "notifications d' = notifications d" by (simp add: d' markSet_def)
  from 1 2 3 show ?thesis by blast
qed

theorem markRead_single_flag_witness:
  "markRead twoMentionsDb 100 = Inr (projr (markRead twoMentionsDb 100)) \<and>
   uc_mentions (getUnreadCount twoMentionsDb ''leo'') = 1 \<and>
   uc_mentions (getUnreadCount (projr (markRead twoMentionsDb 100)) ''leo'') = 0 \<and>
   length (notifications (projr (markRead twoMentionsDb 100))) = 2"
proof -
  have h: "markRead twoMentionsDb 100 = Inr (projr (markRead twoMentionsDb 100))"
    by code_simp
  have c: "uc_mentions (getUnreadCount twoMentionsDb ''leo'') = 1"
    by code_simp
  have f: "length (filter (\<lambda>m. unreadMention (toLowerCase ''leo'') m \<and> msg_id m \<noteq> 100)
                     (unifiedMessages twoMentionsDb)) = 0"
    by code_simp
  have n: "length (notifications twoMentionsDb) = 2"
    by code_simp
  show ?thesis
    using h c f n markRead_single_flag [OF h, of "''leo''"] by simp
qed

section \<open>The sweep and the unread count\<close>

lemma length_filter_split:
  "length (filter P xs) = length (filter (\<lambda>x. P x \<and> Q x) xs) + length (filter (\<lambda>x. P x \<and> \<not> Q x) xs)"
  by (induction xs) auto

text \<open>
  Claim C10. \<^verbatim>\<open>markAllRead\<close> returns, and every comment not yet marked read whose mention
  set holds the agent's name is marked read by it, the agent's own comments included. The
  number it returns is the total \<^verbatim>\<open>getUnreadCount\<close> reports just before, plus the number
  of such comments written by the agent, which \<^verbatim>\<open>getUnreadCount\<close> leaves out; in the
  store where Sam has mentioned Sam, it is larger than that total.
\<close>

theorem markAllRead_marks_own_comments:
  "\<exists>d'. markAllRead d agentName =
           Inr (d', uc_total (getUnreadCount d agentName)
                    + length (filter (\<lambda>m. mtype m = Comment \<and> read m \<noteq> Some True \<and>
                                mentionsName (toLowerCase agentName) m \<and>
                                fromAgent m = toLowerCase agentName) (unifiedMessages d)))
        \<and> (\<forall>m \<in> set (unifiedMessages d).
              mtype m = Comment \<and> read m \<noteq> Some True \<and> mentionsName (toLowerCase agentName) m
              \<longrightarrow> m\<lparr>read := Some True\<rparr> \<in> set (unifiedMessages d'))
        \<and> uc_total (getUnreadCount ownMentionDb ''sam'')
            < snd (projr (markAllRead ownMentionDb ''sam''))"
proof -
  have x: "uc_total (getUnreadCount ownMentionDb ''sam'')
            < snd (projr (markAllRead ownMentionDb ''sam''))"
    by code_simp
  let ?a = "toLowerCase agentName"
  let ?S = "msg_id ` set (toMarkFor d ?a)"
  let ?P = "\<lambda>m. mtype m = Comment \<and> read m \<noteq> Some True \<and> mentionsName ?a m"
  have A: "filter (unreadMention ?a) (unifiedMessages d)
           = filter (\<lambda>m. ?P m \<and> fromAgent m \<noteq> ?a) (unifiedMessages d)"
    by (rule filter_cong) (auto simp: unreadMention_def mentionsName_def)
  have B: "filter (\<lambda>m. mtype m = Comment \<and> read m \<noteq> Some True \<and>
                        mentionsName ?a m \<and> fromAgent m = ?a) (unifiedMessages d)
           = filter (\<lambda>m. ?P m \<and> \<not> fromAgent m \<noteq> ?a) (unifiedMessages d)"
    by (rule filter_cong) auto
  have n: "length (toMarkFor d ?a)
           = uc_total (getUnreadCount d agentName)
             + length (filter (\<lambda>m. mtype m = Comment \<and> read m \<noteq> Some True \<and>
                                mentionsName ?a m \<and> fromAgent m = ?a) (unifiedMessages d))"
    unfolding B
    using length_filter_split [of ?P "unifiedMessages d" "\<lambda>m. fromAgent m \<noteq> ?a"]
    by (simp add: toMarkFor_def getUnreadCount_def Let_def A)
  have m: "m\<lparr>read := Some True\<rparr> \<in> set (unifiedMessages (markSet ?S d))"
    if "m \<in> set (unifiedMessages d)" "mtype m = Comment" "read m \<noteq> Some True" "mentionsName ?a m" for m
  proof -
    from that have "msg_id m \<in> ?S" by (auto simp: toMarkFor_def)
    with that(1) show ?thesis by (force simp: markSet_def image_iff)
  qed
  have "markAllRead d agentName =
           Inr (markSet ?S d, uc_total (getUnreadCount d agentName)
                    + length (filter (\<lambda>m. mtype m = Comment \<and> read m \<noteq> Some True \<and>
                                mentionsName ?a m \<and> fromAgent m = ?a) (unifiedMessages d)))
        \<and> (\<forall>m \<in> set (unifiedMessages d).
              mtype m = Comment \<and> read m \<noteq> Some True \<and> mentionsName ?a m
              \<longrightarrow> m\<lparr>read := Some True\<rparr> \<in> set (unifiedMessages (markSet ?S d)))"
    by (simp add: markAllRead_eq n m)
  with x show ?thesis by blast
qed

theorem markAllRead_marks_own_comments_witness:
  "markAllRead ownMentionDb ''sam'' = Inr (projr (markAllRead ownMentionDb ''sam'')) \<and>
   uc_total (getUnreadCount ownMentionDb ''sam'') = 0 \<and>
   snd (projr (markAllRead ownMentionDb ''sam'')) = 1 \<and>
   map fromAgent (unifiedMessages ownMentionDb) = [''sam''] \<and>
   map read (unifiedMessages ownMentionDb) = [None] \<and>
   map read (unifiedMessages (fst (projr (markAllRead ownMentionDb ''sam'')))) = [Some True]"
proof -
  have e: "markAllRead ownMentionDb ''sam'' = Inr (projr (markAllRead ownMentionDb ''sam''))"
    by code_simp
  have t: "uc_total (getUnreadCount ownMentionDb ''sam'') = 0" by code_simp
  have f: "length (filter (\<lambda>m. mtype m = Comment \<and> read m \<noteq> Some True \<and>
                                mentionsName (toLowerCase ''sam'') m \<and>
                                fromAgent m = toLowerCase ''sam'') (unifiedMessages ownMentionDb)) = 1"
    by code_simp
  have u: "map fromAgent (unifiedMessages ownMentionDb) = [''sam'']"
     "map read (unifiedMessages ownMentionDb) = [None]"
     "map read (unifiedMessages (fst (projr (markAllRead ownMentionDb ''sam'')))) = [Some True]"
    by code_simp+
  from markAllRead_marks_own_comments [of ownMentionDb "''sam''"] e t f
  have "snd (projr (markAllRead ownMentionDb ''sam'')) = 1"
    by auto
  with e t u show ?thesis by simp
qed

section \<open>Sending a direct message\<close>

lemma sendDM_none_from:
  "findAgent (agents d) (toLowerCase f) = None \<Longrightarrow>
   sendDM d now f t c rel p =
     (fst (insertMessage d
        \<lparr>msg_id = 0, fromAgent = toLowerCase f, toAgent = Some (toLowerCase t), taskId = rel,
          linearIdentifier = (case rel of None \<Rightarrow> None
             | Some t \<Rightarrow> (case getTask d t of None \<Rightarrow> None | Some task \<Rightarrow> task_linearIdentifier task)),
          content = c, mtype = Dm, mentions = None,
          priority = Some (case p of None \<Rightarrow> Normal | Some q \<Rightarrow> q),
          read = Some False, createdAt = now\<rparr>),
      \<lparr>dr_messageId = nextId d, dr_from = toLowerCase f, dr_to = toLowerCase t,
        dr_priority = (case p of None \<Rightarrow> Normal | Some q \<Rightarrow> q)\<rparr>)"
  by (simp add: sendDM_def Let_def insertMessage_def)

lemma sendDM_none_to:
  "findAgent (agents d) (toLowerCase t) = None \<Longrightarrow>
   sendDM d now f t c rel p =
     (fst (insertMessage d
        \<lparr>msg_id = 0, fromAgent = toLowerCase f, toAgent = Some (toLowerCase t), taskId = rel,
          linearIdentifier = (case rel of None \<Rightarrow> None
             | Some t \<Rightarrow> (case getTask d t of None \<Rightarrow> None | Some task \<Rightarrow> task_linearIdentifier task)),
          content = c, mtype = Dm, mentions = None,
          priority = Some (case p of None \<Rightarrow> Normal | Some q \<Rightarrow> q),
          read = Some False, createdAt = now\<rparr>),
      \<lparr>dr_messageId = nextId d, dr_from = toLowerCase f, dr_to = toLowerCase t,
        dr_priority = (case p of None \<Rightarrow> Normal | Some q \<Rightarrow> q)\<rparr>)"
  by (cases "findAgent (agents d) (toLowerCase f)") (simp_all add: sendDM_def Let_def insertMessage_def)


lemma sendDM_resolved:
  assumes "findAgent (agents d) (toLowerCase f) = Some fa"
    and "findAgent (agents d) (toLowerCase t) = Some ta"
  shows "\<exists>m n. unifiedMessages (fst (sendDM d now f t c rel p)) = unifiedMessages d @ [m]
     \<and> msg_id m = nextId d \<and> fromAgent m = toLowerCase f \<and> toAgent m = Some (toLowerCase t)
     \<and> content m = c \<and> mtype m = Dm \<and> read m = Some False
     \<and> priority m = Some (case p of None \<Rightarrow> Normal | Some q \<Rightarrow> q)
     \<and> dr_messageId (snd (sendDM d now f t c rel p)) = nextId d
     \<and> dr_priority (snd (sendDM d now f t c rel p)) = (case p of None \<Rightarrow> Normal | Some q \<Rightarrow> q)
     \<and> agents (fst (sendDM d now f t c rel p)) = agents d
     \<and> notifications (fst (sendDM d now f t c rel p)) = notifications d @ [n]
     \<and> n_type n = DmN \<and> n_to n = agent_id ta \<and> n_from n = agent_id fa \<and> \<not> n_read n
     \<and> n_title n = (if (case p of None \<Rightarrow> Normal | Some q \<Rightarrow> q) = Urgent
                    then urgentMarker @ '' Urgent DM from '' @ agent_name fa
                    else ''DM from '' @ agent_name fa)"
  using assms
  by (simp add: sendDM_def Let_def insertMessage_def insertNotification_def
      insertActivityEvent_def)

lemma sendDM_unresolved:
  assumes "findAgent (agents d) (toLowerCase f) = None \<or> findAgent (agents d) (toLowerCase t) = None"
  shows "\<exists>m. unifiedMessages (fst (sendDM d now f t c rel p)) = unifiedMessages d @ [m]
     \<and> msg_id m = nextId d \<and> fromAgent m = toLowerCase f \<and> toAgent m = Some (toLowerCase t)
     \<and> content m = c \<and> mtype m = Dm \<and> read m = Some False
     \<and> priority m = Some (case p of None \<Rightarrow> Normal | Some q \<Rightarrow> q)
     \<and> dr_messageId (snd (sendDM d now f t c rel p)) = nextId d
     \<and> dr_priority (snd (sendDM d now f t c rel p)) = (case p of None \<Rightarrow> Normal | Some q \<Rightarrow> q)
     \<and> agents (fst (sendDM d now f t c rel p)) = agents d
     \<and> notifications (fst (sendDM d now f t c rel p)) = notifications d
     \<and> activityEvents (fst (sendDM d now f t c rel p)) = activityEvents d"
  using assms
proof
  assume "findAgent (agents d) (toLowerCase f) = None"
  then show ?thesis by (simp add: sendDM_none_from insertMessage_def)
next
  assume "findAgent (agents d) (toLowerCase t) = None"
  then show ?thesis by (simp add: sendDM_none_to insertMessage_def)
qed



lemma sendDM_message:
  "\<exists>m. unifiedMessages (fst (sendDM d now f t c rel p)) = unifiedMessages d @ [m]
     \<and> msg_id m = nextId d \<and> fromAgent m = toLowerCase f \<and> toAgent m = Some (toLowerCase t)
     \<and> content m = c \<and> mtype m = Dm \<and> read m = Some False
     \<and> priority m = Some (case p of None \<Rightarrow> Normal | Some q \<Rightarrow> q)
     \<and> dr_messageId (snd (sendDM d now f t c rel p)) = nextId d
     \<and> dr_priority (snd (sendDM d now f t c rel p)) = (case p of None \<Rightarrow> Normal | Some q \<Rightarrow> q)
     \<and> agents (fst (sendDM d now f t c rel p)) = agents d"
proof (cases "findAgent (agents d) (toLowerCase f) = None \<or> findAgent (agents d) (toLowerCase t) = None")
  case True
  from sendDM_unresolved [OF True, of now c rel p] show ?thesis by blast
next
  case False
  then obtain fa ta where "findAgent (agents d) (toLowerCase f) = Some fa"
    "findAgent (agents d) (toLowerCase t) = Some ta" by auto
  from sendDM_resolved [OF this, of now c rel p] show ?thesis by blast
qed

lemma enrich_agents: "agents d' = agents d \<Longrightarrow> enrich d' = enrich d"
  by (rule ext) (simp add: enrich_def)

lemma getDMs_append:
  assumes "unifiedMessages d' = unifiedMessages d @ [m]" "agents d' = agents d"
    "toAgent m = Some (toLowerCase t)" "read m = Some False" "mtype m = Dm"
  shows "getDMs d' t u = enrich d' m # getDMs d t u"
  using assms(1,3,4,5)
  by (simp add: getDMs_def Let_def by_to_agent_def by_to_agent_unread_def
      enrich_agents [OF assms(2)])

lemma e_msg_enrich: "e_msg (enrich d m) = m"
  by (simp add: enrich_def Let_def)

text \<open>
  Claim C8, as the code has it. An urgent DM sent under a sender name that no agent has is
  stored with its priority and is returned by \<^verbatim>\<open>getDMs\<close> for the recipient, but no
  notification is created for it, so nothing carries the urgent marker.
\<close>

theorem sendDM_urgent_unknown_sender_counterexample:
  "findAgent (agents rosterDb) (toLowerCase ''ghost'') = None
   \<and> map priority
        (unifiedMessages
           (fst (sendDM rosterDb 1000 ''ghost'' ''sam'' ''deploy now'' None (Some Urgent))))
       = [Some Urgent]
   \<and> length (getDMs (fst (sendDM rosterDb 1000 ''ghost'' ''sam'' ''deploy now'' None (Some Urgent)))
               ''sam'' False) = 1
   \<and> dr_priority (snd (sendDM rosterDb 1000 ''ghost'' ''sam'' ''deploy now'' None (Some Urgent)))
       = Urgent
   \<and> notifications (fst (sendDM rosterDb 1000 ''ghost'' ''sam'' ''deploy now'' None (Some Urgent)))
       = []"
  by code_simp

text \<open>
  Claim C8, amended. Whatever the priority argument, the DM that \<^verbatim>\<open>sendDM\<close> stores is the
  first entry \<^verbatim>\<open>getDMs\<close> returns for the recipient afterwards, with the body sent and the
  priority sent, \<open>normal\<close> when none was given; the call reports the same priority. When
  both names resolve, the call adds exactly one notification, unread, of kind \<open>dm\<close>, to the
  recipient; its title starts with the urgent marker when the priority is \<open>urgent\<close> and
  is the plain \<open>DM from\<close> title otherwise. When the sender's or the recipient's name
  resolves to no agent, the call adds no notification.
\<close>

theorem sendDM_priority_roundtrip:
  assumes "sendDM d now f t c rel p = (d', res)"
  shows "dr_priority res = (case p of None \<Rightarrow> Normal | Some q \<Rightarrow> q)
     \<and> (\<exists>m. getDMs d' t u = enrich d' m # getDMs d t u \<and> msg_id m = dr_messageId res
            \<and> content m = c \<and> priority m = Some (case p of None \<Rightarrow> Normal | Some q \<Rightarrow> q))
     \<and> (\<forall>fa ta. findAgent (agents d) (toLowerCase f) = Some fa
                \<and> findAgent (agents d) (toLowerCase t) = Some ta \<longrightarrow>
          (\<exists>n. notifications d' = notifications d @ [n] \<and> n_type n = DmN
                \<and> n_to n = agent_id ta \<and> \<not> n_read n
                \<and> n_title n = (if (case p of None \<Rightarrow> Normal | Some q \<Rightarrow> q) = Urgent
                               then urgentMarker @ '' Urgent DM from '' @ agent_name fa
                               else ''DM from '' @ agent_name fa)))
     \<and> (findAgent (agents d) (toLowerCase f) = None
          \<or> findAgent (agents d) (toLowerCase t) = None \<longrightarrow>
          notifications d' = notifications d)"
proof -
  from assms have d': "d' = fst (sendDM d now f t c rel p)"
    and res: "res = snd (sendDM d now f t c rel p)"
    by simp_all
  from sendDM_message [of d now f t c rel p] obtain m where
    m: "unifiedMessages d' = unifiedMessages d @ [m]" "msg_id m = nextId d"
      "toAgent m = Some (toLowerCase t)" "content m = c" "mtype m = Dm" "read m = Some False"
      "priority m = Some (case p of None \<Rightarrow> Normal | Some q \<Rightarrow> q)"
      "dr_messageId res = nextId d" "dr_priority res = (case p of None \<Rightarrow> Normal | Some q \<Rightarrow> q)"
      "agents d' = agents d"
    unfolding d' res by blast
  have g: "getDMs d' t u = enrich d' m # getDMs d t u"
    using m(1) m(10) m(3) m(6) m(5) by (rule getDMs_append)
  have n: "\<exists>n. notifications d' = notifications d @ [n] \<and> n_type n = DmN
                \<and> n_to n = agent_id ta \<and> \<not> n_read n
                \<and> n_title n = (if (case p of None \<Rightarrow> Normal | Some q \<Rightarrow> q) = Urgent
                               then urgentMarker @ '' Urgent DM from '' @ agent_name fa
                               else ''DM from '' @ agent_name fa)"
    if "findAgent (agents d) (toLowerCase f) = Some fa"
      "findAgent (agents d) (toLowerCase t) = Some ta" for fa ta
    using sendDM_resolved [OF that, of now c rel p] unfolding d' by blast
  have e: "\<exists>m. getDMs d' t u = enrich d' m # getDMs d t u \<and> msg_id m = dr_messageId res
            \<and> content m = c \<and> priority m = Some (case p of None \<Rightarrow> Normal | Some q \<Rightarrow> q)"
    using g m(2) m(4) m(7) m(8) by auto
  have z: "notifications d' = notifications d"
    if "findAgent (agents d) (toLowerCase f) = None
          \<or> findAgent (agents d) (toLowerCase t) = None"
    using sendDM_unresolved [OF that, of now c rel p] unfolding d' by (elim exE conjE)
  from m(9) e n z show ?thesis by blast
qed

theorem sendDM_priority_roundtrip_witness:
  "map (\<lambda>e. priority (e_msg e))
       (getDMs (fst (sendDM rosterDb 1000 ''Max'' ''sam'' ''deploy now'' None (Some Urgent)))
          ''sam'' True) = [Some Urgent]
   \<and> map n_title
       (notifications (fst (sendDM rosterDb 1000 ''Max'' ''sam'' ''deploy now'' None (Some Urgent))))
       = [urgentMarker @ '' Urgent DM from Max'']
   \<and> map (\<lambda>e. priority (e_msg e))
       (getDMs (fst (sendDM rosterDb 1000 ''Max'' ''sam'' ''lunch?'' None None)) ''sam'' True)
       = [Some Normal]
   \<and> map n_title (notifications (fst (sendDM rosterDb 1000 ''Max'' ''sam'' ''lunch?'' None None)))
       = [''DM from Max'']
   \<and> dr_priority (snd (sendDM rosterDb 1000 ''Max'' ''sam'' ''lunch?'' None None)) = Normal"
proof -
  let ?u = "sendDM rosterDb 1000 ''Max'' ''sam'' ''deploy now'' None (Some Urgent)"
  let ?n = "sendDM rosterDb 1000 ''Max'' ''sam'' ''lunch?'' None None"
  have fa: "findAgent (agents rosterDb) (toLowerCase ''Max'')
            = Some \<lparr>agent_id = 1, agent_name = ''Max'', agent_avatar = None\<rparr>"
    and ta: "findAgent (agents rosterDb) (toLowerCase ''sam'')
            = Some \<lparr>agent_id = 2, agent_name = ''Sam'', agent_avatar = None\<rparr>"
    by code_simp+
  have e: "getDMs rosterDb ''sam'' True = []" "notifications rosterDb = []"
    by code_simp+
  have pu: "?u = (fst ?u, snd ?u)" and pn: "?n = (fst ?n, snd ?n)" by simp_all
  from sendDM_priority_roundtrip [OF pu, of True] fa ta e
  have u: "map (\<lambda>e. priority (e_msg e)) (getDMs (fst ?u) ''sam'' True) = [Some Urgent]"
    "map n_title (notifications (fst ?u)) = [urgentMarker @ '' Urgent DM from Max'']"
    by (auto simp: e_msg_enrich)
  from sendDM_priority_roundtrip [OF pn, of True] fa ta e
  have n: "map (\<lambda>e. priority (e_msg e)) (getDMs (fst ?n) ''sam'' True) = [Some Normal]"
    "map n_title (notifications (fst ?n)) = [''DM from Max'']"
    "dr_priority (snd ?n) = Normal"
    by (auto simp: e_msg_enrich)
  from u n show ?thesis by blast
qed

section \<open>A comment from an unknown sender\<close>

text \<open>
  Claim C9. When the ticket exists and the sender's name belongs to no agent,
  \<^verbatim>\<open>postComment\<close> returns normally: the comment is stored, the result carries its
  identifier and the parsed mention set, and neither a notification nor an activity entry
  is written.
\<close>

theorem postComment_unknown_sender:
  assumes "getTask d tId = Some task"
    and "findAgent (agents d) (toLowerCase sender) = None"
  shows "\<exists>d' res m. postComment d now tId sender c = Inr (d', res)
           \<and> unifiedMessages d' = unifiedMessages d @ [m]
           \<and> msg_id m = cr_messageId res \<and> fromAgent m = toLowerCase sender
           \<and> content m = c \<and> mtype m = Comment \<and> taskId m = Some tId
           \<and> mentions m = (if parseMentions c = [] then None else Some (parseMentions c))
           \<and> cr_mentions res = parseMentions c
           \<and> cr_taskId res = tId
           \<and> cr_linearIdentifier res = task_linearIdentifier task
           \<and> notifications d' = notifications d
           \<and> activityEvents d' = activityEvents d"
  using assms by (simp add: postComment_def Let_def insertMessage_def)

theorem postComment_unknown_sender_witness:
  "getTask rosterDb 10 = Some (hd (tasks rosterDb)) \<and>
   findAgent (agents rosterDb) (toLowerCase ''Ghost'') = None \<and>
   (\<exists>d' res m. postComment rosterDb 1000 10 ''Ghost'' ''ping @Max and @leo'' = Inr (d', res)
       \<and> unifiedMessages d' = [m] \<and> content m = ''ping @Max and @leo''
       \<and> cr_mentions res = [''max'', ''leo'']
       \<and> notifications d' = [] \<and> activityEvents d' = [])"
proof -
  have t: "getTask rosterDb 10 = Some (hd (tasks rosterDb))" by code_simp
  have a: "findAgent (agents rosterDb) (toLowerCase ''Ghost'') = None" by code_simp
  have p: "parseMentions ''ping @Max and @leo'' = [''max'', ''leo'']" by code_simp
  have e: "unifiedMessages rosterDb = []" "notifications rosterDb = []"
    "activityEvents rosterDb = []"
    by (simp_all add: rosterDb_def)
  from postComment_unknown_sender [OF t a, of 1000 "''ping @Max and @leo''"]
  obtain d' res m where
    "postComment rosterDb 1000 10 ''Ghost'' ''ping @Max and @leo'' = Inr (d', res)"
    "unifiedMessages d' = [m]" "content m = ''ping @Max and @leo''"
    "cr_mentions res = [''max'', ''leo'']"
    "notifications d' = []" "activityEvents d' = []"
    unfolding p e by auto
  with t a show ?thesis by blast
qed

section \<open>Conversations\<close>

lemma insertBy_createdAsc: "insertBy createdAsc x ys = insort_key createdAt x ys"
  by (induction ys) (auto simp: createdAsc_def)

lemma sortBy_createdAsc: "sortBy createdAsc xs = sort_key createdAt xs"
  by (induction xs) (auto simp: sortBy_def sort_key_def insertBy_createdAsc)

lemma sorted_conversation: "sorted (map createdAt (conversation d a1 a2))"
  by (simp add: conversation_def sortBy_createdAsc)

lemma mset_conversation:
  "mset (conversation d a1 a2) =
   filter_mset (\<lambda>m. mtype m = Dm \<and>
                    ((fromAgent m = a1 \<and> toAgent m = Some a2) \<or>
                     (fromAgent m = a2 \<and> toAgent m = Some a1))) (mset (unifiedMessages d))"
  by (simp add: conversation_def sortBy_createdAsc)

lemma stable_conversation:
  "filter (\<lambda>m. createdAt m = t) (conversation d a1 a2) =
   filter (\<lambda>m. createdAt m = t) (filter (\<lambda>m. mtype m = Dm \<and>
                    ((fromAgent m = a1 \<and> toAgent m = Some a2) \<or>
                     (fromAgent m = a2 \<and> toAgent m = Some a1))) (unifiedMessages d))"
  unfolding conversation_def sortBy_createdAsc by (rule sort_key_stable)

lemma sliceFrom_neg: "0 < k \<Longrightarrow> sliceFrom (- k) xs = drop (length xs - nat k) xs"
  by (auto simp: sliceFrom_def Let_def max_def intro!: arg_cong2 [where f = drop])

lemma sorted_drop_recent:
  "sorted (map f xs) \<Longrightarrow> x \<in> set (take n xs) \<Longrightarrow> y \<in> set (drop n xs) \<Longrightarrow> f x \<le> f y"
proof -
  assume s: "sorted (map f xs)" and x: "x \<in> set (take n xs)" and y: "y \<in> set (drop n xs)"
  have "map f xs = map f (take n xs) @ map f (drop n xs)"
    by (simp flip: map_append)
  with s have "sorted (map f (take n xs) @ map f (drop n xs))" by simp
  then have "\<forall>a \<in> set (map f (take n xs)). \<forall>b \<in> set (map f (drop n xs)). a \<le> b"
    by (simp add: sorted_append)
  with x y show ?thesis by auto
qed

text \<open>
  Claim C7. The conversation of two agents is the DMs between them, in either direction,
  in ascending order of creation time. Without a limit \<^verbatim>\<open>getConversation\<close> returns all
  of it; with a positive limit \<open>k\<close> it returns the last \<open>k\<close> entries of that sequence
  (all of them when there are fewer), which are the most recent: nothing left out is newer
  than anything returned.
\<close>

theorem getConversation_last_k:
  assumes "0 < k"
  shows "getConversation d A B None = map (enrich d) (conversation d (toLowerCase A) (toLowerCase B))
       \<and> getConversation d A B (Some k)
           = map (enrich d) (drop (length (conversation d (toLowerCase A) (toLowerCase B)) - nat k)
                               (conversation d (toLowerCase A) (toLowerCase B)))
       \<and> length (getConversation d A B (Some k))
           = min (nat k) (length (conversation d (toLowerCase A) (toLowerCase B)))
       \<and> sorted (map createdAt (conversation d (toLowerCase A) (toLowerCase B)))
       \<and> mset (conversation d (toLowerCase A) (toLowerCase B))
           = filter_mset (\<lambda>m. mtype m = Dm \<and>
                ((fromAgent m = toLowerCase A \<and> toAgent m = Some (toLowerCase B)) \<or>
                 (fromAgent m = toLowerCase B \<and> toAgent m = Some (toLowerCase A))))
               (mset (unifiedMessages d))
       \<and> (\<forall>x \<in> set (take (length (conversation d (toLowerCase A) (toLowerCase B)) - nat k)
                         (conversation d (toLowerCase A) (toLowerCase B))).
           \<forall>e \<in> set (getConversation d A B (Some k)). createdAt x \<le> createdAt (e_msg e))"
proof -
  let ?c = "conversation d (toLowerCase A) (toLowerCase B)"
  have 1: "getConversation d A B None = map (enrich d) ?c"
    by (simp add: getConversation_def Let_def)
  have 2: "getConversation d A B (Some k) = map (enrich d) (drop (length ?c - nat k) ?c)"
    using assms by (simp add: getConversation_def Let_def sliceFrom_neg)
  have 3: "length (getConversation d A B (Some k)) = min (nat k) (length ?c)"
    unfolding 2 by simp
  have 4: "sorted (map createdAt ?c)" by (rule sorted_conversation)
  have 5: "createdAt x \<le> createdAt (e_msg e)"
    if "x \<in> set (take (length ?c - nat k) ?c)" "e \<in> set (getConversation d A B (Some k))" for x e
  proof -
    from that(2) obtain y where "y \<in> set (drop (length ?c - nat k) ?c)" "e = enrich d y"
      unfolding 2 by auto
    with sorted_drop_recent [OF 4 that(1)] show ?thesis by (simp add: enrich_def Let_def)
  qed
  from 1 2 3 4 5 mset_conversation show ?thesis by blast
qed

theorem getConversation_last_k_witness:
  "(0::int) < 2
   \<and> map content (unifiedMessages chatDb) = [''third'', ''first'', ''second'']
   \<and> map (\<lambda>e. content (e_msg e)) (getConversation chatDb ''Max'' ''Sam'' None)
       = [''first'', ''second'', ''third'']
   \<and> map (\<lambda>e. content (e_msg e)) (getConversation chatDb ''Max'' ''Sam'' (Some 2))
       = [''second'', ''third'']
   \<and> map createdAt (take (length (conversation chatDb (toLowerCase ''Max'') (toLowerCase ''Sam'')) - nat 2)
                       (conversation chatDb (toLowerCase ''Max'') (toLowerCase ''Sam''))) = [1000]"
proof -
  have k: "(0::int) < 2" by simp
  have c: "map content (conversation chatDb (toLowerCase ''Max'') (toLowerCase ''Sam''))
           = [''first'', ''second'', ''third'']"
    "map createdAt (conversation chatDb (toLowerCase ''Max'') (toLowerCase ''Sam''))
           = [1000, 2000, 3000]"
    "map content (unifiedMessages chatDb) = [''third'', ''first'', ''second'']"
    by code_simp+
  from c(1) have l: "length (conversation chatDb (toLowerCase ''Max'') (toLowerCase ''Sam'')) = 3"
    by (metis length_map length_Cons list.size(3) numeral_3_eq_3)
  have n: "nat 2 = 2" by simp
  from getConversation_last_k [OF k, of chatDb "''Max''" "''Sam''"]
  have g: "getConversation chatDb ''Max'' ''Sam'' None
             = map (enrich chatDb) (conversation chatDb (toLowerCase ''Max'') (toLowerCase ''Sam''))"
    "getConversation chatDb ''Max'' ''Sam'' (Some 2)
       = map (enrich chatDb) (drop (length (conversation chatDb (toLowerCase ''Max'') (toLowerCase ''Sam'')) - nat 2)
                               (conversation chatDb (toLowerCase ''Max'') (toLowerCase ''Sam'')))"
    by blast+
  have m: "map (\<lambda>e. content (e_msg e)) (map (enrich chatDb) xs) = map content xs" for xs
    by (simp add: enrich_def Let_def comp_def)
  have 1: "map (\<lambda>e. content (e_msg e)) (getConversation chatDb ''Max'' ''Sam'' None)
       = [''first'', ''second'', ''third'']"
    unfolding g m c by (rule refl)
  have 2: "map (\<lambda>e. content (e_msg e)) (getConversation chatDb ''Max'' ''Sam'' (Some 2))
       = [''second'', ''third'']"
    unfolding g m l n drop_map [symmetric] c by simp
  have 3: "map createdAt (take (length (conversation chatDb (toLowerCase ''Max'') (toLowerCase ''Sam'')) - nat 2)
                       (conversation chatDb (toLowerCase ''Max'') (toLowerCase ''Sam''))) = [1000]"
    unfolding l n take_map [symmetric] c by simp
  from k c(3) 1 2 3 show ?thesis by blast
qed

section \<open>A direct message between unknown agents\<close>

text \<open>
  Claim C2, as the code has it. \<^verbatim>\<open>sendDM\<close> of the unified module has no failing path:
  with a sender name that no agent has it still stores the DM and returns its identifier.
\<close>

theorem sendDM_unknown_agent_counterexample:
  "findAgent (agents rosterDb) (toLowerCase ''ghost'') = None
   \<and> unifiedMessages rosterDb = []
   \<and> map content (unifiedMessages (fst (sendDM rosterDb 1000 ''ghost'' ''sam'' ''hello'' None None)))
       = [''hello'']
   \<and> map fromAgent (unifiedMessages (fst (sendDM rosterDb 1000 ''ghost'' ''sam'' ''hello'' None None)))
       = [''ghost'']
   \<and> dr_messageId (snd (sendDM rosterDb 1000 ''ghost'' ''sam'' ''hello'' None None)) = 100"
  by code_simp

lemma sendDirectMessage_unresolved:
  assumes "findAgent (agents d) (toLowerCase f) = None \<or> findAgent (agents d) (toLowerCase t) = None"
  shows "sendDirectMessage d now f t c rel p = Inl (SenderNotFound f)
       \<or> sendDirectMessage d now f t c rel p = Inl (RecipientNotFound t)"
proof (cases "findAgent (agents d) (toLowerCase f)")
  case None
  then show ?thesis by (simp add: sendDirectMessage_def Let_def)
next
  case (Some a)
  with assms have "findAgent (agents d) (toLowerCase t) = None" by simp
  with Some show ?thesis by (simp add: sendDirectMessage_def Let_def)
qed

text \<open>
  Claim C2, amended. When the sender's or the recipient's name resolves to no agent, the
  legacy \<^verbatim>\<open>sendDirectMessage\<close> fails with a not-found error and writes nothing, while
  \<^verbatim>\<open>sendDM\<close> of the unified module returns normally: it stores the DM and returns its
  identifier, and creates neither a notification nor an activity entry.
\<close>

theorem sendDM_unknown_agent:
  assumes "findAgent (agents d) (toLowerCase f) = None \<or> findAgent (agents d) (toLowerCase t) = None"
  shows "(sendDirectMessage d now f t c rel p = Inl (SenderNotFound f)
          \<or> sendDirectMessage d now f t c rel p = Inl (RecipientNotFound t))
       \<and> (\<exists>m. unifiedMessages (fst (sendDM d now f t c rel p)) = unifiedMessages d @ [m]
              \<and> msg_id m = dr_messageId (snd (sendDM d now f t c rel p))
              \<and> fromAgent m = toLowerCase f \<and> toAgent m = Some (toLowerCase t)
              \<and> content m = c \<and> mtype m = Dm)
       \<and> notifications (fst (sendDM d now f t c rel p)) = notifications d
       \<and> activityEvents (fst (sendDM d now f t c rel p)) = activityEvents d"
proof -
  from sendDM_unresolved [OF assms, of now c rel p] obtain m where
    "unifiedMessages (fst (sendDM d now f t c rel p)) = unifiedMessages d @ [m]"
    "msg_id m = nextId d" "fromAgent m = toLowerCase f" "toAgent m = Some (toLowerCase t)"
    "content m = c" "mtype m = Dm"
    "dr_messageId (snd (sendDM d now f t c rel p)) = nextId d"
    "notifications (fst (sendDM d now f t c rel p)) = notifications d"
    "activityEvents (fst (sendDM d now f t c rel p)) = activityEvents d"
    by blast
  with sendDirectMessage_unresolved [OF assms, of now c rel p] show ?thesis by auto
qed

theorem sendDM_unknown_agent_witness:
  "(findAgent (agents rosterDb) (toLowerCase ''ghost'') = None
      \<or> findAgent (agents rosterDb) (toLowerCase ''sam'') = None)
   \<and> sendDirectMessage rosterDb 1000 ''ghost'' ''sam'' ''hello'' None None
       = Inl (SenderNotFound ''ghost'')
   \<and> length (unifiedMessages (fst (sendDM rosterDb 1000 ''ghost'' ''sam'' ''hello'' None None))) = 1
   \<and> notifications (fst (sendDM rosterDb 1000 ''ghost'' ''sam'' ''hello'' None None)) = []
   \<and> activityEvents (fst (sendDM rosterDb 1000 ''ghost'' ''sam'' ''hello'' None None)) = []"
proof -
  have g: "findAgent (agents rosterDb) (toLowerCase ''ghost'') = None" by code_simp
  then have h: "findAgent (agents rosterDb) (toLowerCase ''ghost'') = None
      \<or> findAgent (agents rosterDb) (toLowerCase ''sam'') = None" by (rule disjI1)
  have e: "unifiedMessages rosterDb = []" "notifications rosterDb = []"
    "activityEvents rosterDb = []"
    by (simp_all add: rosterDb_def)
  have s: "sendDirectMessage rosterDb 1000 ''ghost'' ''sam'' ''hello'' None None
       = Inl (SenderNotFound ''ghost'')"
    using g by (simp add: sendDirectMessage_def Let_def)
  from sendDM_unknown_agent [OF h, of 1000 "''hello''" None None] e
  have "length (unifiedMessages (fst (sendDM rosterDb 1000 ''ghost'' ''sam'' ''hello'' None None))) = 1"
    "notifications (fst (sendDM rosterDb 1000 ''ghost'' ''sam'' ''hello'' None None)) = []"
    "activityEvents (fst (sendDM rosterDb 1000 ''ghost'' ''sam'' ''hello'' None None)) = []"
    by auto
  with h s show ?thesis by blast
qed

section \<open>The legacy and the unified store\<close>

lemma findAgent_Some: "findAgent as n = Some a \<Longrightarrow> a \<in> set as \<and> toLowerCase (agent_name a) = n"
  by (auto simp: findAgent_def find_Some_iff)

text \<open>
  Claim C3, as the code has it. A DM sent through the legacy \<^verbatim>\<open>sendDirectMessage\<close> goes to
  the table \<^verbatim>\<open>agentMessages\<close>; the unified \<^verbatim>\<open>getDMs\<close> for its recipient returns nothing.
\<close>

theorem legacy_dm_not_unified_counterexample:
  "\<not> isl (sendDirectMessage rosterDb 1000 ''max'' ''sam'' ''hello'' None None)
   \<and> map am_content
        (agentMessages (fst (projr (sendDirectMessage rosterDb 1000 ''max'' ''sam'' ''hello'' None None))))
       = [''hello'']
   \<and> getDMs (fst (projr (sendDirectMessage rosterDb 1000 ''max'' ''sam'' ''hello'' None None)))
        ''sam'' False = []
   \<and> unifiedMessages (fst (projr (sendDirectMessage rosterDb 1000 ''max'' ''sam'' ''hello'' None None)))
       = []"
  by code_simp

lemma sendDirectMessage_Inr:
  assumes "sendDirectMessage d now f t c rel p = Inr (d', res)"
  shows "\<exists>fa ta m. findAgent (agents d) (toLowerCase f) = Some fa
       \<and> findAgent (agents d) (toLowerCase t) = Some ta
       \<and> agentMessages d' = agentMessages d @ [m]
       \<and> am_id m = dr_messageId res \<and> am_content m = c \<and> am_to m = agent_id ta
       \<and> am_from m = agent_id fa \<and> am_status m = ''unread'' \<and> am_timestamp m = now
       \<and> unifiedMessages d' = unifiedMessages d \<and> agents d' = agents d \<and> tasks d' = tasks d"
proof (cases "findAgent (agents d) (toLowerCase f)")
  case None
  with assms show ?thesis by (simp add: sendDirectMessage_def Let_def)
next
  case fa: (Some fa)
  show ?thesis
  proof (cases "findAgent (agents d) (toLowerCase t)")
    case None
    with assms fa show ?thesis by (simp add: sendDirectMessage_def Let_def)
  next
    case (Some ta)
    with assms fa show ?thesis
      by (auto simp add: sendDirectMessage_def Let_def insertAgentMessage_def
          insertNotification_def insertActivityEvent_def)
  qed
qed

text \<open>
  Claim C3, amended. A DM created through the legacy \<^verbatim>\<open>sendDirectMessage\<close> is stored in
  the legacy table only. The unified message store is unchanged, so the unified queries
  \<^verbatim>\<open>getDMs\<close>, \<^verbatim>\<open>getTaskComments\<close> and \<^verbatim>\<open>getConversation\<close> return what they returned
  before; the DM is visible, with its content, through the legacy query
  \<^verbatim>\<open>getDirectMessages\<close> for its recipient.
\<close>

theorem legacy_dm_separate_store:
  assumes "sendDirectMessage d now f t c rel p = Inr (d', res)"
  shows "unifiedMessages d' = unifiedMessages d
       \<and> getDMs d' a u = getDMs d a u
       \<and> getTaskComments d' tId = getTaskComments d tId
       \<and> getConversation d' a b lim = getConversation d a b lim
       \<and> (\<exists>m. agentMessages d' = agentMessages d @ [m] \<and> am_id m = dr_messageId res
              \<and> am_content m = c)
       \<and> (\<exists>e. e \<in> set (getDirectMessages d' t u) \<and> am_id (el_msg e) = dr_messageId res
              \<and> am_content (el_msg e) = c)"
proof -
  from sendDirectMessage_Inr [OF assms] obtain fa ta m where
    h: "findAgent (agents d) (toLowerCase t) = Some ta"
      "agentMessages d' = agentMessages d @ [m]"
      "am_id m = dr_messageId res" "am_content m = c" "am_to m = agent_id ta"
      "am_status m = ''unread''"
      "unifiedMessages d' = unifiedMessages d" "agents d' = agents d"
    by blast
  have en: "enrich d' = enrich d"
    by (rule ext) (simp add: enrich_def h(8))
  have 1: "getDMs d' a u = getDMs d a u"
    by (simp add: getDMs_def Let_def by_to_agent_def by_to_agent_unread_def h(7) en)
  have 2: "getTaskComments d' tId = getTaskComments d tId"
    by (simp add: getTaskComments_def Let_def by_task_def h(7) en)
  have 3: "getConversation d' a b lim = getConversation d a b lim"
    by (simp add: getConversation_def Let_def conversation_def h(7) en)
  have "enrichLegacy d' m \<in> set (getDirectMessages d' t u)"
    by (simp add: getDirectMessages_def Let_def h(8) h(1) h(2) h(5) h(6) set_sortBy)
  moreover have "el_msg (enrichLegacy d' m) = m"
    by (simp add: enrichLegacy_def Let_def)
  ultimately have 4: "\<exists>e. e \<in> set (getDirectMessages d' t u) \<and> am_id (el_msg e) = dr_messageId res
              \<and> am_content (el_msg e) = c"
    using h(3) h(4) by auto
  from h(7) 1 2 3 4 h(2) h(3) h(4) show ?thesis by blast
qed

theorem legacy_dm_separate_store_witness:
  "sendDirectMessage rosterDb 1000 ''max'' ''sam'' ''hello'' None None
     = Inr (projr (sendDirectMessage rosterDb 1000 ''max'' ''sam'' ''hello'' None None))
   \<and> getDMs (fst (projr (sendDirectMessage rosterDb 1000 ''max'' ''sam'' ''hello'' None None)))
        ''sam'' False = []
   \<and> map (\<lambda>e. am_content (el_msg e))
        (getDirectMessages
           (fst (projr (sendDirectMessage rosterDb 1000 ''max'' ''sam'' ''hello'' None None)))
           ''sam'' False) = [''hello'']"
proof -
  let ?r = "sendDirectMessage rosterDb 1000 ''max'' ''sam'' ''hello'' None None"
  have r: "?r = Inr (fst (projr ?r), snd (projr ?r))" by code_simp
  have g: "getDMs rosterDb ''sam'' False = []" by code_simp
  have l: "map (\<lambda>e. am_content (el_msg e)) (getDirectMessages (fst (projr ?r)) ''sam'' False)
           = [''hello'']"
    by code_simp
  from legacy_dm_separate_store [OF r, of "''sam''" False] g
  have "getDMs (fst (projr ?r)) ''sam'' False = []" by simp
  with r l show ?thesis by simp
qed

section \<open>Notifications for mentions\<close>

lemma set_uniq: "set (uniq xs) = set xs"
  by (induction xs rule: uniq.induct) auto

lemma distinct_uniq: "distinct (uniq xs)"
  by (induction xs rule: uniq.induct) (auto simp: set_uniq)

lemma distinct_parseMentions: "distinct (parseMentions c)"
  by (simp add: parseMentions_def Let_def distinct_uniq)

lemma notifyMentions_notifications:
  "\<exists>new. notifications (notifyMentions as agent anl lid c t now ms d) = notifications d @ new
     \<and> map n_to new = mentionTargets as anl ms
     \<and> (\<forall>n \<in> set new. \<not> n_read n \<and> n_type n = MentionN \<and> n_from n = agent_id agent)"
proof (induction ms arbitrary: d)
  case Nil
  then show ?case by simp
next
  case (Cons x xs)
  show ?case
  proof (cases "x = anl")
    case True
    with Cons.IH [of d] show ?thesis by simp
  next
    case False
    show ?thesis
    proof (cases "findAgent as x")
      case None
      with False Cons.IH [of d] show ?thesis by simp
    next
      case (Some a)
      let ?n = "\<lparr>n_id = nextId d, n_to = agent_id a, n_from = agent_id agent, n_type = MentionN,
                  n_title = agent_name agent @ '' mentioned you'',
                  n_message = ''In '' @ lid @ '': '' @ preview 100 c,
                  n_read = False, n_relatedTask = Some t, n_createdAt = now\<rparr>"
      let ?d = "d\<lparr>notifications := notifications d @ [?n], nextId := Suc (nextId d)\<rparr>"
      have step: "notifyMentions as agent anl lid c t now (x # xs) d
                  = notifyMentions as agent anl lid c t now xs ?d"
        using False Some by (simp add: insertNotification_def)
      from Cons.IH [of ?d] obtain new where
        new: "notifications (notifyMentions as agent anl lid c t now xs ?d) = notifications ?d @ new"
          "map n_to new = mentionTargets as anl xs"
          "\<forall>n \<in> set new. \<not> n_read n \<and> n_type n = MentionN \<and> n_from n = agent_id agent"
        by blast
      have "notifications (notifyMentions as agent anl lid c t now (x # xs) d)
              = notifications d @ (?n # new)"
        unfolding step new(1) by simp
      moreover have "map n_to (?n # new) = mentionTargets as anl (x # xs)"
        using False Some new(2) by simp
      moreover have "\<forall>n \<in> set (?n # new). \<not> n_read n \<and> n_type n = MentionN \<and> n_from n = agent_id agent"
        using new(3) by simp
      ultimately show ?thesis by blast
    qed
  qed
qed

lemma notifyMentions_other:
  "unifiedMessages (notifyMentions as agent anl lid c t now ms d) = unifiedMessages d
   \<and> activityEvents (notifyMentions as agent anl lid c t now ms d) = activityEvents d"
  by (induction ms arbitrary: d) (auto simp: insertNotification_def split: option.splits)

lemma targets_not_in:
  assumes "distinct (map agent_id as)" "X \<in> set as"
    and "toLowerCase (agent_name X) \<notin> set ms \<or> toLowerCase (agent_name X) = anl"
  shows "agent_id X \<notin> set (mentionTargets as anl ms)"
  using assms(3)
proof (induction ms)
  case Nil
  then show ?case by simp
next
  case (Cons x xs)
  then have IH: "agent_id X \<notin> set (mentionTargets as anl xs)" by auto
  show ?case
  proof (cases "x = anl")
    case True
    with IH show ?thesis by simp
  next
    case False
    show ?thesis
    proof (cases "findAgent as x")
      case None
      with False IH show ?thesis by simp
    next
      case (Some a)
      then have a: "a \<in> set as" "toLowerCase (agent_name a) = x" by (auto dest: findAgent_Some)
      from Cons.prems False a(2) have "a \<noteq> X" by auto
      with assms(1,2) a(1) have "agent_id a \<noteq> agent_id X"
        by (auto simp: distinct_map inj_on_def)
      with False Some IH show ?thesis by simp
    qed
  qed
qed

lemma targets_once:
  assumes "distinct (map agent_id as)" "findAgent as x = Some X" "x \<noteq> anl"
  shows "distinct ms \<Longrightarrow> x \<in> set ms \<Longrightarrow> filter (\<lambda>i. i = agent_id X) (mentionTargets as anl ms) = [agent_id X]"
proof (induction ms)
  case Nil
  then show ?case by simp
next
  case (Cons y ys)
  from assms(2) have X: "X \<in> set as" "toLowerCase (agent_name X) = x" by (auto dest: findAgent_Some)
  show ?case
  proof (cases "y = x")
    case True
    with Cons.prems have "x \<notin> set ys" by simp
    with X have "agent_id X \<notin> set (mentionTargets as anl ys)"
      using targets_not_in [OF assms(1) X(1), of ys anl] by simp
    then have "filter (\<lambda>i. i = agent_id X) (mentionTargets as anl ys) = []"
      by (auto simp: filter_empty_conv)
    with True assms(2,3) show ?thesis by simp
  next
    case False
    with Cons have IH: "filter (\<lambda>i. i = agent_id X) (mentionTargets as anl ys) = [agent_id X]" by simp
    show ?thesis
    proof (cases "y = anl")
      case True
      with IH show ?thesis by simp
    next
      case ny: False
      show ?thesis
      proof (cases "findAgent as y")
        case None
        with ny IH show ?thesis by simp
      next
        case (Some a)
        then have a: "a \<in> set as" "toLowerCase (agent_name a) = y" by (auto dest: findAgent_Some)
        with False X(2) have "a \<noteq> X" by auto
        with assms(1) X(1) a(1) have "agent_id a \<noteq> agent_id X"
          by (auto simp: distinct_map inj_on_def)
        with ny Some IH show ?thesis by simp
      qed
    qed
  qed
qed





lemma postComment_Inr_task:
  "postComment d now tId sender c = Inr (d', res) \<Longrightarrow> \<exists>task. getTask d tId = Some task"
  by (cases "getTask d tId") (simp_all add: postComment_def)

lemma postComment_resolved:
  assumes "getTask d tId = Some task"
    and "findAgent (agents d) (toLowerCase sender) = Some s"
  shows "postComment d now tId sender c =
     Inr (notifyMentions (agents d) s (toLowerCase sender)
            (orElse (task_linearIdentifier task) (''task-'' @ idString tId)) c tId now
            (parseMentions c)
            (d\<lparr>unifiedMessages := unifiedMessages d @
                  [\<lparr>msg_id = nextId d, fromAgent = toLowerCase sender, toAgent = None,
                    taskId = Some tId, linearIdentifier = task_linearIdentifier task,
                    content = c, mtype = Comment,
                    mentions = (if parseMentions c = [] then None else Some (parseMentions c)),
                    priority = None, read = None, createdAt = now\<rparr>],
               activityEvents := activityEvents d @
                  [\<lparr>ev_id = Suc (nextId d), ev_agentId = agent_id s,
                    ev_agentName = toLowerCase sender, ev_category = ''message'',
                    ev_eventType = ''comment'',
                    ev_title = toUpperCase (agent_name s) @ '' commented on '' @
                       orElse (task_linearIdentifier task) (''task-'' @ idString tId),
                    ev_taskId = Some tId, ev_linearIdentifier = task_linearIdentifier task,
                    ev_projectId = task_projectId task, ev_source = ''unified_messaging'',
                    ev_timestamp = now\<rparr>],
               nextId := Suc (Suc (nextId d))\<rparr>),
          \<lparr>cr_messageId = nextId d, cr_taskId = tId, cr_mentions = parseMentions c,
            cr_linearIdentifier = task_linearIdentifier task\<rparr>)"
  using assms
  by (simp add: postComment_def Let_def insertMessage_def insertActivityEvent_def)

lemma postComment_unresolved:
  assumes "getTask d tId = Some task"
    and "findAgent (agents d) (toLowerCase sender) = None"
  shows "postComment d now tId sender c =
     Inr (d\<lparr>unifiedMessages := unifiedMessages d @
                  [\<lparr>msg_id = nextId d, fromAgent = toLowerCase sender, toAgent = None,
                    taskId = Some tId, linearIdentifier = task_linearIdentifier task,
                    content = c, mtype = Comment,
                    mentions = (if parseMentions c = [] then None else Some (parseMentions c)),
                    priority = None, read = None, createdAt = now\<rparr>],
             nextId := Suc (nextId d)\<rparr>,
          \<lparr>cr_messageId = nextId d, cr_taskId = tId, cr_mentions = parseMentions c,
            cr_linearIdentifier = task_linearIdentifier task\<rparr>)"
  using assms
  by (simp add: postComment_def Let_def insertMessage_def)


lemma postComment_new_notifications:
  assumes "postComment d now tId sender c = Inr (d', res)"
  shows "\<exists>new. notifications d' = notifications d @ new
     \<and> (\<forall>s. findAgent (agents d) (toLowerCase sender) = Some s \<longrightarrow>
           map n_to new = mentionTargets (agents d) (toLowerCase sender) (parseMentions c)
           \<and> (\<forall>n \<in> set new. \<not> n_read n \<and> n_type n = MentionN \<and> n_from n = agent_id s))
     \<and> (findAgent (agents d) (toLowerCase sender) = None \<longrightarrow> new = [])"
proof -
  from postComment_Inr_task [OF assms] obtain task where t: "getTask d tId = Some task" ..
  show ?thesis
  proof (cases "findAgent (agents d) (toLowerCase sender)")
    case None
    from assms [unfolded postComment_unresolved [OF t None]]
    have "notifications d' = notifications d" by auto
    then have "notifications d' = notifications d @ []" by simp
    then show ?thesis
      by (rule_tac x = "[]" in exI) (simp add: None)
  next
    case (Some s)
    let ?lid = "orElse (task_linearIdentifier task) (''task-'' @ idString tId)"
    let ?d2 = "d\<lparr>unifiedMessages := unifiedMessages d @
                  [\<lparr>msg_id = nextId d, fromAgent = toLowerCase sender, toAgent = None,
                    taskId = Some tId, linearIdentifier = task_linearIdentifier task,
                    content = c, mtype = Comment,
                    mentions = (if parseMentions c = [] then None else Some (parseMentions c)),
                    priority = None, read = None, createdAt = now\<rparr>],
               activityEvents := activityEvents d @
                  [\<lparr>ev_id = Suc (nextId d), ev_agentId = agent_id s,
                    ev_agentName = toLowerCase sender, ev_category = ''message'',
                    ev_eventType = ''comment'',
                    ev_title = toUpperCase (agent_name s) @ '' commented on '' @ ?lid,
                    ev_taskId = Some tId, ev_linearIdentifier = task_linearIdentifier task,
                    ev_projectId = task_projectId task, ev_source = ''unified_messaging'',
                    ev_timestamp = now\<rparr>],
               nextId := Suc (Suc (nextId d))\<rparr>"
    let ?X = "notifyMentions (agents d) s (toLowerCase sender) ?lid c tId now (parseMentions c) ?d2"
    from assms [unfolded postComment_resolved [OF t Some]]
    have "?X = d' \<and> \<lparr>cr_messageId = nextId d, cr_taskId = tId, cr_mentions = parseMentions c,
            cr_linearIdentifier = task_linearIdentifier task\<rparr> = res"
      by (simp only: sum.inject prod.inject)
    then have d': "d' = ?X" by (elim conjE) (rule sym)
    have d2: "notifications ?d2 = notifications d" by simp
    from notifyMentions_notifications
      [of "agents d" s "toLowerCase sender" ?lid c tId now "parseMentions c" ?d2]
    obtain new where n1: "notifications d' = notifications d @ new"
      and n2: "map n_to new = mentionTargets (agents d) (toLowerCase sender) (parseMentions c)"
      and n3: "\<forall>n \<in> set new. \<not> n_read n \<and> n_type n = MentionN \<and> n_from n = agent_id s"
      unfolding d' d2 by (elim exE conjE)
    show ?thesis
      by (rule exI [of _ new]) (simp add: Some n1 n2 n3)
  qed
qed

lemma filter_to_single:
  assumes "filter (\<lambda>i. i = k) (map n_to new) = [k]"
  shows "\<exists>n. filter (\<lambda>n. n_to n = k) new = [n] \<and> n \<in> set new"
proof -
  from assms have "map n_to (filter (\<lambda>n. n_to n = k) new) = [k]"
    by (simp add: filter_map comp_def)
  then obtain n where n: "filter (\<lambda>n. n_to n = k) new = [n]" by (auto simp: map_eq_Cons_conv)
  then have "n \<in> set (filter (\<lambda>n. n_to n = k) new)" by simp
  then have "n \<in> set new" by simp
  with n show ?thesis by blast
qed

text \<open>
  Claim C4, amended. Let \<^verbatim>\<open>postComment\<close> succeed on a store whose agents have distinct
  identifiers. When the sender's name resolves to an agent, every mentioned name that
  resolves to an agent \<open>X\<close> other than the sender gets exactly one new notification
  addressed to \<open>X\<close>, unread and of kind \<open>mention\<close>, from the sender. No new notification
  is addressed to an agent that has the sender's name. When the sender's name resolves to
  no agent, the call creates no notification at all.
\<close>

theorem postComment_mention_notifications:
  assumes "postComment d now tId sender c = Inr (d', res)"
    and "distinct (map agent_id (agents d))"
  shows "\<exists>new. notifications d' = notifications d @ new
     \<and> (\<forall>x X s. x \<in> set (parseMentions c) \<and> findAgent (agents d) x = Some X
                \<and> findAgent (agents d) (toLowerCase sender) = Some s \<and> X \<noteq> s \<longrightarrow>
           (\<exists>n. filter (\<lambda>n. n_to n = agent_id X) new = [n] \<and> \<not> n_read n
                \<and> n_type n = MentionN \<and> n_from n = agent_id s))
     \<and> (\<forall>a \<in> set (agents d). toLowerCase (agent_name a) = toLowerCase sender \<longrightarrow>
           agent_id a \<notin> set (map n_to new))
     \<and> (findAgent (agents d) (toLowerCase sender) = None \<longrightarrow> new = [])"
proof -
  let ?anl = "toLowerCase sender"
  from postComment_new_notifications [OF assms(1)] obtain new where
    new1: "notifications d' = notifications d @ new"
    and new2: "\<forall>s. findAgent (agents d) ?anl = Some s \<longrightarrow>
           map n_to new = mentionTargets (agents d) ?anl (parseMentions c)
           \<and> (\<forall>n \<in> set new. \<not> n_read n \<and> n_type n = MentionN \<and> n_from n = agent_id s)"
    and new3: "findAgent (agents d) ?anl = None \<longrightarrow> new = []"
    by (elim exE conjE)
  have A: "\<exists>n. filter (\<lambda>n. n_to n = agent_id X) new = [n] \<and> \<not> n_read n
                \<and> n_type n = MentionN \<and> n_from n = agent_id s"
    if h: "x \<in> set (parseMentions c)" "findAgent (agents d) x = Some X"
      "findAgent (agents d) ?anl = Some s" "X \<noteq> s" for x X s
  proof -
    from h(2,3,4) have ne: "x \<noteq> ?anl" by auto
    from new2 h(3) have t: "map n_to new = mentionTargets (agents d) ?anl (parseMentions c)"
      and p: "\<forall>n \<in> set new. \<not> n_read n \<and> n_type n = MentionN \<and> n_from n = agent_id s"
      by blast+
    from targets_once [OF assms(2) h(2) ne distinct_parseMentions h(1)]
    have "filter (\<lambda>i. i = agent_id X) (map n_to new) = [agent_id X]"
      unfolding t .
    from filter_to_single [OF this] obtain n
      where "filter (\<lambda>n. n_to n = agent_id X) new = [n]" "n \<in> set new" by (elim exE conjE)
    with p show ?thesis by auto
  qed
  have B: "agent_id a \<notin> set (map n_to new)"
    if h: "a \<in> set (agents d)" "toLowerCase (agent_name a) = ?anl" for a
  proof (cases "findAgent (agents d) ?anl")
    case None
    with new3 show ?thesis by simp
  next
    case (Some s)
    from new2 Some have t: "map n_to new = mentionTargets (agents d) ?anl (parseMentions c)"
      by blast
    from targets_not_in [OF assms(2) h(1), of "parseMentions c" ?anl] h(2)
    show ?thesis unfolding t by simp
  qed
  have A': "\<forall>x X s. x \<in> set (parseMentions c) \<and> findAgent (agents d) x = Some X
                \<and> findAgent (agents d) ?anl = Some s \<and> X \<noteq> s \<longrightarrow>
           (\<exists>n. filter (\<lambda>n. n_to n = agent_id X) new = [n] \<and> \<not> n_read n
                \<and> n_type n = MentionN \<and> n_from n = agent_id s)"
    using A by blast
  have B': "\<forall>a \<in> set (agents d). toLowerCase (agent_name a) = ?anl \<longrightarrow>
           agent_id a \<notin> set (map n_to new)"
    using B by blast
  show ?thesis
    by (rule exI [of _ new], intro conjI) (fact new1, fact A', fact B', fact new3)
qed


text \<open>
  Claim C4, as the code has it. Max is a known agent and is mentioned by a comment whose
  sender, Ghost, is no agent: the comment is stored and no notification is created for Max.
\<close>

theorem postComment_unknown_sender_no_fanout_counterexample:
  "findAgent (agents rosterDb) ''max''
     = Some \<lparr>agent_id = 1, agent_name = ''Max'', agent_avatar = None\<rparr>
   \<and> findAgent (agents rosterDb) (toLowerCase ''Ghost'') = None
   \<and> parseMentions ''ping @Max'' = [''max'']
   \<and> \<not> isl (postComment rosterDb 1000 10 ''Ghost'' ''ping @Max'')
   \<and> map content (unifiedMessages (fst (projr (postComment rosterDb 1000 10 ''Ghost'' ''ping @Max''))))
       = [''ping @Max'']
   \<and> notifications (fst (projr (postComment rosterDb 1000 10 ''Ghost'' ''ping @Max''))) = []"
  by code_simp

theorem postComment_mention_notifications_witness:
  "postComment rosterDb 1000 10 ''sam'' ''Looks good @Leo @leo @all''
     = Inr (projr (postComment rosterDb 1000 10 ''sam'' ''Looks good @Leo @leo @all''))
   \<and> distinct (map agent_id (agents rosterDb))
   \<and> ''leo'' \<in> set (parseMentions ''Looks good @Leo @leo @all'')
   \<and> (\<exists>n. filter (\<lambda>n. n_to n = 3)
             (notifications (fst (projr (postComment rosterDb 1000 10 ''sam''
                ''Looks good @Leo @leo @all'')))) = [n]
          \<and> \<not> n_read n \<and> n_type n = MentionN \<and> n_from n = 2)
   \<and> 2 \<notin> set (map n_to (notifications (fst (projr (postComment rosterDb 1000 10 ''sam''
                ''Looks good @Leo @leo @all'')))))
   \<and> map n_to (notifications (fst (projr (postComment rosterDb 1000 10 ''sam''
                ''Looks good @Leo @leo @all'')))) = [1, 3, 4]"
proof -
  let ?r = "postComment rosterDb 1000 10 ''sam'' ''Looks good @Leo @leo @all''"
  have r: "?r = Inr (fst (projr ?r), snd (projr ?r))" by code_simp
  have dst: "distinct (map agent_id (agents rosterDb))" by code_simp
  have leo: "''leo'' \<in> set (parseMentions ''Looks good @Leo @leo @all'')" by code_simp
  have fl: "findAgent (agents rosterDb) ''leo''
            = Some \<lparr>agent_id = 3, agent_name = ''Leo'', agent_avatar = None\<rparr>"
    and fs: "findAgent (agents rosterDb) (toLowerCase ''sam'')
            = Some \<lparr>agent_id = 2, agent_name = ''Sam'', agent_avatar = None\<rparr>"
    and sam: "\<lparr>agent_id = 2, agent_name = ''Sam'', agent_avatar = None\<rparr> \<in> set (agents rosterDb)"
      "toLowerCase (agent_name \<lparr>agent_id = 2, agent_name = ''Sam'', agent_avatar = None\<rparr>)
         = toLowerCase ''sam''"
    by code_simp+
  have e: "notifications rosterDb = []" by (simp add: rosterDb_def)
  have all: "map n_to (notifications (fst (projr ?r))) = [1, 3, 4]" by code_simp
  from postComment_mention_notifications [OF r dst] obtain new where
    n1: "notifications (fst (projr ?r)) = notifications rosterDb @ new"
    and n2: "\<forall>x X s. x \<in> set (parseMentions ''Looks good @Leo @leo @all'')
                \<and> findAgent (agents rosterDb) x = Some X
                \<and> findAgent (agents rosterDb) (toLowerCase ''sam'') = Some s \<and> X \<noteq> s \<longrightarrow>
           (\<exists>n. filter (\<lambda>n. n_to n = agent_id X) new = [n] \<and> \<not> n_read n
                \<and> n_type n = MentionN \<and> n_from n = agent_id s)"
    and n3: "\<forall>a \<in> set (agents rosterDb). toLowerCase (agent_name a) = toLowerCase ''sam'' \<longrightarrow>
           agent_id a \<notin> set (map n_to new)"
    by (elim exE conjE)
  from n1 e have new: "new = notifications (fst (projr ?r))" by simp
  from n2 leo fl fs
  have A: "\<exists>n. filter (\<lambda>n. n_to n = 3) new = [n] \<and> \<not> n_read n \<and> n_type n = MentionN \<and> n_from n = 2"
    by fastforce
  from n3 sam have B: "2 \<notin> set (map n_to new)" by fastforce
  from r dst leo A B all show ?thesis unfolding new by simp
qed

end
